theory Spec2Isabelle
  imports Main
begin

section \<open>Errors\<close>

text \<open>
  The exceptions the module raises, as values. \<open>RuntimeError_label\<close> and
  \<open>RuntimeError_self\<close> are the two \<open>RuntimeError\<close>s of the constructor of
  \<open>SemanticDependency\<close>; \<open>IndexError\<close> is what indexing a document outside its
  range raises; \<open>RecursionError\<close> is what the interpreter raises when a recursion goes
  deeper than its limit.
\<close>

datatype py_error =
    RuntimeError_label
  | RuntimeError_self int
  | IndexError
  | RecursionError
  | DocumentTooBigError nat nat
  | WrongModelDeserializationError string

definition bind_err :: "py_error + 'a \<Rightarrow> ('a \<Rightarrow> py_error + 'b) \<Rightarrow> py_error + 'b" where
  "bind_err m f = (case m of Inl e \<Rightarrow> Inl e | Inr v \<Rightarrow> f v)"

text \<open>A \<open>for\<close> loop whose body may raise: the first exception ends the loop.\<close>

fun for_each :: "'a list \<Rightarrow> ('a \<Rightarrow> 's \<Rightarrow> py_error + 's) \<Rightarrow> 's \<Rightarrow> py_error + 's" where
  "for_each [] body s = Inr s"
| "for_each (x # xs) body s = bind_err (body x s) (for_each xs body)"

section \<open>SemanticDependency\<close>

record semantic_dependency =
  parent_index :: int
  child_index :: int
  label :: "string option"
  is_uncertain :: bool

text \<open>\<open>SemanticDependency.__init__\<close>: the two checks, in the order of the source.\<close>

definition SemanticDependency_init ::
  "int \<Rightarrow> int \<Rightarrow> string option \<Rightarrow> bool \<Rightarrow> py_error + semantic_dependency" where
  "SemanticDependency_init p c l u =
     (if c < 0 \<and> l \<noteq> None then Inl RuntimeError_label
      else if p = c then Inl (RuntimeError_self p)
      else Inr \<lparr>parent_index = p, child_index = c, label = l, is_uncertain = u\<rparr>)"

text \<open>
  \<open>__eq__\<close> takes any object as \<open>other\<close> and first compares its type with
  \<open>SemanticDependency\<close>; \<open>__hash__\<close> is the interpreter's hash of the pair of
  indexes, a function of the pair that is a parameter here.
\<close>

datatype py_object = SemDep semantic_dependency | OtherObject

fun SemanticDependency_eq :: "semantic_dependency \<Rightarrow> py_object \<Rightarrow> bool" where
  "SemanticDependency_eq d (SemDep other) =
     (parent_index d = parent_index other \<and> child_index d = child_index other)"
| "SemanticDependency_eq d OtherObject = False"

definition SemanticDependency_ne :: "semantic_dependency \<Rightarrow> py_object \<Rightarrow> bool" where
  "SemanticDependency_ne d other = (\<not> SemanticDependency_eq d other)"

definition SemanticDependency_hash :: "(int \<times> int \<Rightarrow> int) \<Rightarrow> semantic_dependency \<Rightarrow> int" where
  "SemanticDependency_hash tuple_hash d = tuple_hash (parent_index d, child_index d)"

section \<open>Parsing: the size bound\<close>

text \<open>
  \<open>SemanticAnalyzer.spacy_parse\<close>. The text is a list of characters (Python's
  \<open>len\<close> counts code points, so the element type is left open), \<open>nlp\<close> is the spaCy
  pipeline, which may raise errors of its own, and \<open>maximum_document_size\<close> the class
  attribute, 1000000 unless overridden.
\<close>

definition default_maximum_document_size :: nat where
  "default_maximum_document_size = 1000000"

definition spacy_parse ::
  "nat \<Rightarrow> ('c list \<Rightarrow> py_error + 'doc) \<Rightarrow> 'c list \<Rightarrow> py_error + 'doc" where
  "spacy_parse maximum_document_size nlp text =
     (if length text > maximum_document_size
      then Inl (DocumentTooBigError (length text) maximum_document_size)
      else nlp text)"

text \<open>\<open>SemanticAnalyzer.parse\<close>: the spaCy parse, then the Holmes parse of its result.\<close>

definition parse ::
  "nat \<Rightarrow> ('c list \<Rightarrow> py_error + 'doc) \<Rightarrow> ('doc \<Rightarrow> py_error + 'hdoc) \<Rightarrow> 'c list \<Rightarrow>
   py_error + 'hdoc" where
  "parse maximum_document_size nlp holmes_parse text =
     bind_err (spacy_parse maximum_document_size nlp text) holmes_parse"

section \<open>HolmesDictionary\<close>

text \<open>
  The per-token holder of the semantic information. The field \<open>lemma\<close> of the source
  is \<open>holmes_lemma\<close> here.
\<close>

record holmes_dictionary =
  index :: int
  holmes_lemma :: string
  children :: "semantic_dependency list"
  righthand_siblings :: "int list"
  is_involved_in_or_conjunction :: bool
  is_negated :: "bool option"
  is_matchable :: "bool option"

section \<open>Serialization\<close>

text \<open>
  The value of the extension attribute \<open>token._.holmes\<close>: the default set by
  \<open>Token.set_extension\<close> (the empty string), \<open>None\<close>, or a HolmesDictionary.
  For serialization a document is the pair of its spaCy part and the list of the values of
  this attribute, one for each token in the order of the tokens. The spaCy functions
  \<open>to_bytes\<close> and \<open>from_bytes\<close> and jsonpickle's \<open>encode\<close> and
  \<open>decode\<close> are parameters; each of them may raise.
\<close>

datatype holmes_attr = EmptyString | NoneValue | Holmes holmes_dictionary

definition py_nth :: "'a list \<Rightarrow> nat \<Rightarrow> py_error + 'a" where
  "py_nth xs i = (if i < length xs then Inr (xs ! i) else Inl IndexError)"

record 'b serialized_holmes_document =
  sd_serialized_spacy_document :: 'b
  sd_dictionaries :: "holmes_attr list"
  sd_model :: string

fun detach_dictionaries ::
  "nat list \<Rightarrow> holmes_attr list \<times> holmes_attr list \<Rightarrow> holmes_attr list \<times> holmes_attr list" where
  "detach_dictionaries [] st = st"
| "detach_dictionaries (i # rest) (dictionaries, attrs) =
     detach_dictionaries rest (dictionaries @ [attrs ! i], attrs[i := NoneValue])"

definition attach_dictionaries ::
  "holmes_attr list \<Rightarrow> holmes_attr list \<Rightarrow> py_error + holmes_attr list" where
  "attach_dictionaries dictionaries attrs =
     for_each [0..<length attrs]
       (\<lambda>i a. bind_err (py_nth dictionaries i) (\<lambda>d. Inr (a[i := d]))) attrs"

definition to_serialized_string ::
  "string \<Rightarrow> ('d \<Rightarrow> holmes_attr list \<Rightarrow> py_error + 'b) \<Rightarrow>
   ('b serialized_holmes_document \<Rightarrow> py_error + 's) \<Rightarrow>
   'd \<times> holmes_attr list \<Rightarrow> py_error + ('s \<times> ('d \<times> holmes_attr list))" where
  "to_serialized_string self_model to_bytes encode spacy_doc =
     (case spacy_doc of (d, attrs) \<Rightarrow>
        (case detach_dictionaries [0..<length attrs] ([], attrs) of (dictionaries, detached) \<Rightarrow>
           bind_err (to_bytes d detached)
             (\<lambda>bytes.
                let serialized_document =
                      \<lparr>sd_serialized_spacy_document = bytes,
                       sd_dictionaries = dictionaries, sd_model = self_model\<rparr>
                in bind_err (attach_dictionaries dictionaries detached)
                     (\<lambda>restored.
                        bind_err (encode serialized_document)
                          (\<lambda>s. Inr (s, (d, restored)))))))"

definition holmes_document ::
  "('b \<Rightarrow> py_error + ('d \<times> holmes_attr list)) \<Rightarrow> 'b serialized_holmes_document \<Rightarrow>
   py_error + ('d \<times> holmes_attr list)" where
  "holmes_document from_bytes sd =
     bind_err (from_bytes (sd_serialized_spacy_document sd))
       (\<lambda>doc. case doc of (d, attrs) \<Rightarrow>
          bind_err (attach_dictionaries (sd_dictionaries sd) attrs)
            (\<lambda>attached. Inr (d, attached)))"

definition from_serialized_string ::
  "string \<Rightarrow> ('s \<Rightarrow> py_error + 'b serialized_holmes_document) \<Rightarrow>
   ('b \<Rightarrow> py_error + ('d \<times> holmes_attr list)) \<Rightarrow> 's \<Rightarrow> py_error + ('d \<times> holmes_attr list)" where
  "from_serialized_string self_model decode from_bytes serialized_spacy_doc =
     bind_err (decode serialized_spacy_doc)
       (\<lambda>serialized_document.
          if sd_model serialized_document \<noteq> self_model
          then Inl (WrongModelDeserializationError (sd_model serialized_document))
          else holmes_document from_bytes serialized_document)"

section \<open>The two languages and their constants\<close>

text \<open>
  \<open>EnglishSemanticAnalyzer\<close> and \<open>GermanSemanticAnalyzer\<close> override the
  class attributes of \<open>SemanticAnalyzer\<close>; an attribute is a function of the language.
\<close>

datatype language = English | German

fun conjunction_deps :: "language \<Rightarrow> string list" where
  "conjunction_deps English = [''conj'', ''appos'', ''cc'']"
| "conjunction_deps German = [''cj'', ''cd'', ''punct'', ''app'']"

fun mark_child_dependencies_copied_to_siblings_as_uncertain :: "language \<Rightarrow> bool" where
  "mark_child_dependencies_copied_to_siblings_as_uncertain English = True"
| "mark_child_dependencies_copied_to_siblings_as_uncertain German = False"

section \<open>Documents and dictionaries\<close>

text \<open>
  During the passes every token carries a HolmesDictionary, so the state of a document is
  the list of its dictionaries in the order of the tokens, and the number of tokens is the
  length of that list. \<open>doc_index\<close> is \<open>token.doc[k]\<close>: a negative index
  counts from the end and an index outside the document raises IndexError; the result is the
  position \<open>i\<close> of the token found.
\<close>

definition doc_index :: "nat \<Rightarrow> int \<Rightarrow> py_error + nat" where
  "doc_index n k =
     (let j = (if k < 0 then int n + k else k)
      in if 0 \<le> j \<and> j < int n then Inr (nat j) else Inl IndexError)"

definition has_dependency_with_child_index :: "holmes_dictionary \<Rightarrow> int \<Rightarrow> bool" where
  "has_dependency_with_child_index h idx = list_ex (\<lambda>dependency. child_index dependency = idx) (children h)"

definition has_dependency_with_label :: "holmes_dictionary \<Rightarrow> string option \<Rightarrow> bool" where
  "has_dependency_with_label h l = list_ex (\<lambda>dependency. label dependency = l) (children h)"

definition has_dependency_with_child_index_and_label ::
  "holmes_dictionary \<Rightarrow> int \<Rightarrow> string option \<Rightarrow> bool" where
  "has_dependency_with_child_index_and_label h idx l =
     list_ex (\<lambda>dependency. child_index dependency = idx \<and> label dependency = l) (children h)"

definition remove_dependency_with_child_index :: "holmes_dictionary \<Rightarrow> int \<Rightarrow> holmes_dictionary" where
  "remove_dependency_with_child_index h idx =
     h\<lparr>children := filter (\<lambda>dep. child_index dep \<noteq> idx) (children h)\<rparr>"

section \<open>Coordination: copying information between siblings\<close>

text \<open>
  \<open>_copy_any_sibling_info\<close>, called for the token at position \<open>i\<close>. The
  loop over \<open>children.copy()\<close> runs over the children the token has when the loop
  starts; each of the two inner loops runs over a list of sibling indexes, which this method
  never changes.
\<close>

definition append_child :: "nat \<Rightarrow> semantic_dependency \<Rightarrow> holmes_dictionary list \<Rightarrow> holmes_dictionary list" where
  "append_child j d hs = hs[j := (hs ! j)\<lparr>children := children (hs ! j) @ [d]\<rparr>]"

definition set_or_conjunction :: "nat \<Rightarrow> holmes_dictionary list \<Rightarrow> holmes_dictionary list" where
  "set_or_conjunction j hs = hs[j := (hs ! j)\<lparr>is_involved_in_or_conjunction := True\<rparr>]"

definition copy_or_conjunction_flag ::
  "nat \<Rightarrow> holmes_dictionary list \<Rightarrow> py_error + holmes_dictionary list" where
  "copy_or_conjunction_flag i hs =
     (if is_involved_in_or_conjunction (hs ! i)
      then for_each (righthand_siblings (hs ! i))
             (\<lambda>righthand_sibling s.
                bind_err (doc_index (length s) righthand_sibling)
                  (\<lambda>j. Inr (set_or_conjunction j s))) hs
      else Inr hs)"

definition add_dependency_to_child_sibling ::
  "nat \<Rightarrow> semantic_dependency \<Rightarrow> int \<Rightarrow> holmes_dictionary list \<Rightarrow>
   py_error + holmes_dictionary list" where
  "add_dependency_to_child_sibling i dependency child_righthand_sibling hs =
     (if \<not> list_ex (\<lambda>d. child_index d = child_righthand_sibling) (children (hs ! i))
      then (let child_index_to_add =
                  (if child_index dependency < 0 then 0 - (child_righthand_sibling + 1)
                   else child_righthand_sibling)
            in if int i \<noteq> child_index_to_add \<and>
                  \<not> has_dependency_with_child_index (hs ! i) child_index_to_add
               then bind_err
                      (SemanticDependency_init (int i) child_index_to_add (label dependency)
                         (is_uncertain dependency))
                      (\<lambda>d. Inr (append_child i d hs))
               else Inr hs)
      else Inr hs)"

definition add_dependency_to_righthand_sibling ::
  "language \<Rightarrow> semantic_dependency \<Rightarrow> int \<Rightarrow> holmes_dictionary list \<Rightarrow>
   py_error + holmes_dictionary list" where
  "add_dependency_to_righthand_sibling lang dependency righthand_sibling hs =
     bind_err (doc_index (length hs) righthand_sibling)
       (\<lambda>j. if \<not> list_ex (\<lambda>sibling_dependency. label sibling_dependency = label dependency)
                    (children (hs ! j)) \<and>
                label dependency \<notin> set (map Some (conjunction_deps lang)) \<and>
                \<not> has_dependency_with_child_index (hs ! j) (child_index dependency) \<and>
                righthand_sibling \<noteq> child_index dependency
             then bind_err
                    (SemanticDependency_init righthand_sibling (child_index dependency)
                       (label dependency)
                       (mark_child_dependencies_copied_to_siblings_as_uncertain lang))
                    (\<lambda>d. Inr (append_child j d hs))
             else Inr hs)"

definition copy_dependency ::
  "language \<Rightarrow> nat \<Rightarrow> semantic_dependency \<Rightarrow> holmes_dictionary list \<Rightarrow>
   py_error + holmes_dictionary list" where
  "copy_dependency lang i dependency hs =
     bind_err
       (bind_err (doc_index (length hs) (child_index dependency))
          (\<lambda>c. for_each (righthand_siblings (hs ! c))
                 (add_dependency_to_child_sibling i dependency) hs))
       (\<lambda>hs1. for_each
                 (filter (\<lambda>righthand_sibling. righthand_sibling \<noteq> child_index dependency)
                    (righthand_siblings (hs1 ! i)))
                 (add_dependency_to_righthand_sibling lang dependency) hs1)"

definition copy_any_sibling_info ::
  "language \<Rightarrow> nat \<Rightarrow> holmes_dictionary list \<Rightarrow> py_error + holmes_dictionary list" where
  "copy_any_sibling_info lang i hs =
     bind_err (copy_or_conjunction_flag i hs)
       (\<lambda>hs1. for_each (children (hs1 ! i)) (copy_dependency lang i) hs1)"

definition copy_any_sibling_info_pass ::
  "language \<Rightarrow> holmes_dictionary list \<Rightarrow> py_error + holmes_dictionary list" where
  "copy_any_sibling_info_pass lang hs = for_each [0..<length hs] (copy_any_sibling_info lang) hs"

text \<open>\<open>HolmesDictionary.__init__\<close>.\<close>

definition new_dictionary :: "int \<Rightarrow> string \<Rightarrow> holmes_dictionary" where
  "new_dictionary i l =
     \<lparr>index = i, holmes_lemma = l, children = [], righthand_siblings = [],
      is_involved_in_or_conjunction = False, is_negated = None, is_matchable = None\<rparr>"

text \<open>
  An example: the dictionaries of ``big black cats and dogs'' after
  \<open>_initialize_semantic_dependencies\<close> and \<open>_mark_if_righthand_sibling\<close>
  (both adjectives and the conjunction hang on ``cats'', and ``dogs'' is its righthand
  sibling), and what the pass makes of them.
\<close>

definition dep :: "int \<Rightarrow> int \<Rightarrow> string \<Rightarrow> bool \<Rightarrow> semantic_dependency" where
  "dep p c l u = \<lparr>parent_index = p, child_index = c, label = Some l, is_uncertain = u\<rparr>"

definition big_black_cats_and_dogs :: "holmes_dictionary list" where
  "big_black_cats_and_dogs =
     [new_dictionary 0 ''big'', new_dictionary 1 ''black'',
      (new_dictionary 2 ''cat'')
        \<lparr>children := [dep 2 0 ''amod'' False, dep 2 1 ''amod'' False, dep 2 3 ''cc'' False,
                      dep 2 4 ''conj'' False],
         righthand_siblings := [4]\<rparr>,
      new_dictionary 3 ''and'', new_dictionary 4 ''dog'']"


definition big_black_cats_and_dogs_after :: "holmes_dictionary list" where
  "big_black_cats_and_dogs_after =
     [new_dictionary 0 ''big'', new_dictionary 1 ''black'',
      (new_dictionary 2 ''cat'')
        \<lparr>children := [dep 2 0 ''amod'' False, dep 2 1 ''amod'' False, dep 2 3 ''cc'' False,
                      dep 2 4 ''conj'' False],
         righthand_siblings := [4]\<rparr>,
      new_dictionary 3 ''and'',
      (new_dictionary 4 ''dog'')\<lparr>children := [dep 4 0 ''amod'' True]\<rparr>]"

text \<open>
  Where the uncertainty of an edge of token \<open>k\<close> comes from, relative to the
  dictionaries \<open>hs\<close> at the start of a pass: it is the language's flag for
  dependencies copied to siblings, or the edge repeats the label and the uncertainty of
  an edge that token \<open>k\<close> had at the start.
\<close>

definition copied_edge_provenance ::
  "language \<Rightarrow> holmes_dictionary list \<Rightarrow> nat \<Rightarrow> semantic_dependency \<Rightarrow> bool" where
  "copied_edge_provenance lang hs k e =
     (is_uncertain e = mark_child_dependencies_copied_to_siblings_as_uncertain lang \<or>
      list_ex (\<lambda>e0. label e = label e0 \<and> is_uncertain e = is_uncertain e0) (children (hs ! k)))"

text \<open>
  The edges that the two copy rules of \<open>_copy_any_sibling_info\<close> can give token
  \<open>k\<close>, relative to the dictionaries \<open>hs\<close> at the start of a pass: an edge the
  token has at the start; for an edge of the token, the edge with the same label and
  uncertainty to a righthand sibling of its child (to the grammatical encoding of the sibling
  when the child index is negative); and, for an edge of a token of which \<open>k\<close> is a
  righthand sibling, the edge to the same child with the same label, unless this is a
  coordination label or the child is the sibling itself, marked with the language's flag for
  dependencies copied to siblings.
\<close>

inductive propagated_edge ::
  "language \<Rightarrow> holmes_dictionary list \<Rightarrow> nat \<Rightarrow> semantic_dependency \<Rightarrow> bool"
  for lang :: language and hs :: "holmes_dictionary list" where
  at_start:
    "k < length hs \<Longrightarrow> e \<in> set (children (hs ! k)) \<Longrightarrow> propagated_edge lang hs k e"
| to_sibling_of_child:
    "propagated_edge lang hs k e \<Longrightarrow> doc_index (length hs) (child_index e) = Inr c \<Longrightarrow>
     y \<in> set (righthand_siblings (hs ! c)) \<Longrightarrow>
     propagated_edge lang hs k
       \<lparr>parent_index = int k,
        child_index = (if child_index e < 0 then 0 - (y + 1) else y),
        label = label e, is_uncertain = is_uncertain e\<rparr>"
| to_righthand_sibling:
    "propagated_edge lang hs k e \<Longrightarrow> rs \<in> set (righthand_siblings (hs ! k)) \<Longrightarrow>
     doc_index (length hs) rs = Inr j \<Longrightarrow>
     label e \<notin> set (map Some (conjunction_deps lang)) \<Longrightarrow> rs \<noteq> child_index e \<Longrightarrow>
     propagated_edge lang hs j
       \<lparr>parent_index = rs, child_index = child_index e, label = label e,
        is_uncertain = mark_child_dependencies_copied_to_siblings_as_uncertain lang\<rparr>"

text \<open>
  \<open>grows Q hs hs'\<close>: the same tokens with the same siblings, and every token's
  children are its former children followed by added ones that satisfy \<open>Q\<close>.
\<close>

definition grows ::
  "(nat \<Rightarrow> semantic_dependency \<Rightarrow> bool) \<Rightarrow> holmes_dictionary list \<Rightarrow> holmes_dictionary list \<Rightarrow> bool" where
  "grows Q hs hs' =
     (length hs' = length hs \<and>
      (\<forall>k<length hs. righthand_siblings (hs' ! k) = righthand_siblings (hs ! k) \<and>
         (\<exists>added. children (hs' ! k) = children (hs ! k) @ added \<and> list_all (Q k) added)))"

section \<open>Tokens\<close>

text \<open>
  What the passes read of a spaCy token: its text, \<open>lemma_\<close>, \<open>pos_\<close>, \<open>tag_\<close>,
  \<open>dep_\<close>, the position of its head (spaCy makes a root its own head), the bounds of
  its sentence and, for each coreference cluster it belongs to, the positions of the root
  tokens of the cluster's mentions. The position \<open>i\<close> of a token is its place in the list.
\<close>

record token =
  tok_text :: string
  tok_lemma :: string
  tok_pos :: string
  tok_tag :: string
  tok_dep :: string
  tok_head :: nat
  tok_sent_start :: nat
  tok_sent_end :: nat
  tok_coref_clusters :: "nat list list"

text \<open>
  \<open>token.children\<close>: the tokens whose head is the token, in the order of the document;
  a token is not among its own children.
\<close>

definition syntactic_children :: "token list \<Rightarrow> nat \<Rightarrow> nat list" where
  "syntactic_children toks i =
     filter (\<lambda>j. j \<noteq> i \<and> tok_head (toks ! j) = i) [0..<length toks]"

section \<open>Negation\<close>

text \<open>
  The loop over the children in the two \<open>_set_negation\<close> methods: every exit from inside
  the loop marks the token as negated, so the loop is the test whether some child fulfils
  one of the conditions.
\<close>

definition startswith :: "string \<Rightarrow> string \<Rightarrow> bool" where
  "startswith s p = (take (length p) s = p)"

fun has_negation_child :: "language \<Rightarrow> token list \<Rightarrow> holmes_dictionary list \<Rightarrow> nat \<Rightarrow> bool" where
  "has_negation_child English toks hs i =
     list_ex
       (\<lambda>child.
          holmes_lemma (hs ! child) \<in>
            set [''nobody'', ''nothing'', ''nowhere'', ''noone'', ''neither'', ''nor'', ''no''] \<or>
          tok_dep (toks ! child) = ''neg'' \<or>
          (holmes_lemma (hs ! child) \<in> set [''more'', ''longer''] \<and>
           list_ex (\<lambda>grandchild. holmes_lemma (hs ! grandchild) = ''no'')
             (syntactic_children toks child)))
       (syntactic_children toks i)"
| "has_negation_child German toks hs i =
     list_ex
       (\<lambda>child.
          holmes_lemma (hs ! child) \<in> set [''nicht'', ''kein'', ''keine'', ''nie''] \<or>
          startswith (holmes_lemma (hs ! child)) ''nirgend'')
       (syntactic_children toks i)"

definition set_is_negated ::
  "nat \<Rightarrow> bool option \<Rightarrow> holmes_dictionary list \<Rightarrow> holmes_dictionary list" where
  "set_is_negated i v hs = hs[i := (hs ! i)\<lparr>is_negated := v\<rparr>]"

text \<open>
  \<open>_set_negation\<close>, the same in both languages but for the test of the children. The
  method calls itself on the head of the token; the first argument after the tokens is the
  number of nested calls the interpreter still allows, and a call beyond it raises
  RecursionError.
\<close>

fun set_negation ::
  "language \<Rightarrow> token list \<Rightarrow> nat \<Rightarrow> nat \<Rightarrow> holmes_dictionary list \<Rightarrow>
   py_error + holmes_dictionary list" where
  "set_negation lang toks 0 i hs = Inl RecursionError"
| "set_negation lang toks (Suc depth) i hs =
     (if is_negated (hs ! i) \<noteq> None then Inr hs
      else if has_negation_child lang toks hs i then Inr (set_is_negated i (Some True) hs)
      else if tok_dep (toks ! i) = ''ROOT'' then Inr (set_is_negated i (Some False) hs)
      else bind_err (set_negation lang toks depth (tok_head (toks ! i)) hs)
             (\<lambda>hs1. Inr (set_is_negated i (is_negated (hs1 ! tok_head (toks ! i))) hs1)))"

definition negation_pass ::
  "language \<Rightarrow> token list \<Rightarrow> nat \<Rightarrow> holmes_dictionary list \<Rightarrow> py_error + holmes_dictionary list" where
  "negation_pass lang toks limit hs =
     for_each [0..<length toks] (set_negation lang toks limit) hs"

text \<open>The head chain of token \<open>i\<close> reaches a token labelled ROOT in at most \<open>d\<close> steps.\<close>

fun reaches_root :: "token list \<Rightarrow> nat \<Rightarrow> nat \<Rightarrow> bool" where
  "reaches_root toks 0 i = (tok_dep (toks ! i) = ''ROOT'')"
| "reaches_root toks (Suc d) i =
     (tok_dep (toks ! i) = ''ROOT'' \<or> reaches_root toks d (tok_head (toks ! i)))"

definition plain_token :: "string \<Rightarrow> string \<Rightarrow> string \<Rightarrow> string \<Rightarrow> nat \<Rightarrow> token" where
  "plain_token text pos tag dep_label head =
     \<lparr>tok_text = text, tok_lemma = text, tok_pos = pos, tok_tag = tag, tok_dep = dep_label,
      tok_head = head, tok_sent_start = 0, tok_sent_end = 0, tok_coref_clusters = []\<rparr>"

text \<open>Two tokens that are each other's head, neither labelled ROOT.\<close>

definition cyclic_tokens :: "token list" where
  "cyclic_tokens =
     [plain_token ''a'' ''NOUN'' ''NN'' ''dep'' 1, plain_token ''b'' ''NOUN'' ''NN'' ''dep'' 0]"

definition cyclic_dictionaries :: "holmes_dictionary list" where
  "cyclic_dictionaries = [new_dictionary 0 ''a'', new_dictionary 1 ''b'']"

text \<open>
  ``He did not go.'': every token hangs on ``go'', the root, and ``not'' is labelled
  \<open>neg\<close>.
\<close>

definition he_did_not_go :: "token list" where
  "he_did_not_go =
     [plain_token ''He'' ''PRON'' ''PRP'' ''nsubj'' 3, plain_token ''did'' ''VERB'' ''VBD'' ''aux'' 3,
      plain_token ''not'' ''ADV'' ''RB'' ''neg'' 3, plain_token ''go'' ''VERB'' ''VB'' ''ROOT'' 3,
      plain_token ''.'' ''PUNCT'' ''.'' ''punct'' 3]"

definition he_did_not_go_dictionaries :: "holmes_dictionary list" where
  "he_did_not_go_dictionaries =
     [new_dictionary 0 ''-pron-'', new_dictionary 1 ''do'', new_dictionary 2 ''not'',
      new_dictionary 3 ''go'', new_dictionary 4 ''.'']"

section \<open>Coreference\<close>

text \<open>
  \<open>is_involved_in_coreference\<close>. The flag \<open>coref\<close> stands for
  \<open>self.model_supports_coreference_resolution() and token.doc._.has_coref\<close>; the
  clusters of a token list the root tokens of their mentions, which are tokens of the
  document.
\<close>

definition is_involved_in_coreference ::
  "bool \<Rightarrow> token list \<Rightarrow> holmes_dictionary list \<Rightarrow> nat \<Rightarrow> bool" where
  "is_involved_in_coreference coref toks hs i =
     (coref \<and>
      list_ex
        (\<lambda>cluster.
           list_ex (\<lambda>root. root = i \<or> int i \<in> set (righthand_siblings (hs ! root))) cluster)
        (tok_coref_clusters (toks ! i)))"

section \<open>Predicative adjectives\<close>

fun adjectival_predicate_head_pos :: "language \<Rightarrow> string" where
  "adjectival_predicate_head_pos English = ''VERB''"
| "adjectival_predicate_head_pos German = ''AUX''"

fun adjectival_predicate_subject_pos :: "language \<Rightarrow> string list" where
  "adjectival_predicate_subject_pos English = [''NOUN'', ''PROPN'']"
| "adjectival_predicate_subject_pos German = [''NOUN'', ''PROPN'', ''PRON'']"

fun adjectival_predicate_subject_dep :: "language \<Rightarrow> string" where
  "adjectival_predicate_subject_dep English = ''nsubj''"
| "adjectival_predicate_subject_dep German = ''sb''"

fun adjectival_predicate_predicate_dep :: "language \<Rightarrow> string" where
  "adjectival_predicate_predicate_dep English = ''acomp''"
| "adjectival_predicate_predicate_dep German = ''pd''"

fun modifier_dep :: "language \<Rightarrow> string" where
  "modifier_dep English = ''amod''"
| "modifier_dep German = ''nk''"

text \<open>
  The conditions of the two generator expressions of
  \<open>_normalize_predicative_adjectives\<close>, evaluated from left to right:
  \<open>token.doc[dependency.child_index]\<close> is only reached, and can only raise, when the label
  matches.
\<close>

definition is_predicative_adjective ::
  "language \<Rightarrow> token list \<Rightarrow> nat \<Rightarrow> semantic_dependency \<Rightarrow> py_error + bool" where
  "is_predicative_adjective lang toks n dependency =
     (if label dependency = Some (adjectival_predicate_predicate_dep lang)
      then bind_err (doc_index n (child_index dependency))
             (\<lambda>c. Inr (tok_pos (toks ! c) = ''ADJ'' \<and> child_index dependency \<ge> 0))
      else Inr False)"

definition is_predicate_subject ::
  "language \<Rightarrow> bool \<Rightarrow> token list \<Rightarrow> holmes_dictionary list \<Rightarrow> int \<Rightarrow> semantic_dependency \<Rightarrow>
   py_error + bool" where
  "is_predicate_subject lang coref toks hs predicative_adjective_index dependency =
     (if label dependency = Some (adjectival_predicate_subject_dep lang)
      then bind_err (doc_index (length hs) (child_index dependency))
             (\<lambda>c. Inr ((tok_pos (toks ! c) \<in> set (adjectival_predicate_subject_pos lang) \<or>
                        is_involved_in_coreference coref toks hs c) \<and>
                       child_index dependency \<ge> 0 \<and>
                       child_index dependency \<noteq> predicative_adjective_index))
      else Inr False)"

text \<open>
  The body of the inner loop. The state is the dictionaries together with the Python variable
  \<open>subject_index\<close>, which is unassigned (\<open>None\<close>) exactly as long as \<open>altered\<close>
  is false.
\<close>

definition attach_adjective_to_subject ::
  "language \<Rightarrow> bool \<Rightarrow> token list \<Rightarrow> int \<Rightarrow> semantic_dependency \<Rightarrow>
   holmes_dictionary list \<times> int option \<Rightarrow> py_error + (holmes_dictionary list \<times> int option)" where
  "attach_adjective_to_subject lang coref toks predicative_adjective_index dependency st =
     (case st of (hs, assigned) \<Rightarrow>
        bind_err (is_predicate_subject lang coref toks hs predicative_adjective_index dependency)
          (\<lambda>selected.
             if selected
             then (let subject_index = child_index dependency
                   in bind_err (doc_index (length hs) subject_index)
                        (\<lambda>s. bind_err
                                (SemanticDependency_init subject_index predicative_adjective_index
                                   (Some (modifier_dep lang)) False)
                                (\<lambda>d. Inr (append_child s d hs, Some subject_index))))
             else Inr (hs, assigned)))"

text \<open>
  \<open>_normalize_predicative_adjectives\<close> for the token at position \<open>i\<close>. Both loops run
  over the children of the token. The only list that grows inside them is the children of
  a subject, and an edge added there is labelled with the modifier label, which neither
  generator selects in either language; so running over the children as they are when a loop
  starts visits the same dependencies as the generators do.
\<close>

definition normalize_predicative_adjectives ::
  "language \<Rightarrow> bool \<Rightarrow> token list \<Rightarrow> nat \<Rightarrow> holmes_dictionary list \<Rightarrow>
   py_error + holmes_dictionary list" where
  "normalize_predicative_adjectives lang coref toks i hs =
     (if tok_pos (toks ! i) = adjectival_predicate_head_pos lang
      then bind_err
             (for_each (children (hs ! i))
                (\<lambda>dependency st.
                   bind_err (is_predicative_adjective lang toks (length (fst st)) dependency)
                     (\<lambda>selected.
                        if selected
                        then for_each (children (fst st ! i))
                               (attach_adjective_to_subject lang coref toks (child_index dependency))
                               st
                        else Inr st))
                (hs, None))
             (\<lambda>st. case snd st of
                      None \<Rightarrow> Inr (fst st)
                    | Some subject_index \<Rightarrow>
                        bind_err (SemanticDependency_init (int i) (0 - (subject_index + 1)) None False)
                          (\<lambda>d. Inr ((fst st)[i := (fst st ! i)\<lparr>children := [d]\<rparr>])))
      else Inr hs)"






section \<open>Additional dependencies for preposition phrases\<close>

fun spacy_noun_to_preposition_dep :: "language \<Rightarrow> string" where
  "spacy_noun_to_preposition_dep English = ''prep''"
| "spacy_noun_to_preposition_dep German = ''mnr''"

fun spacy_verb_to_preposition_dep :: "language \<Rightarrow> string" where
  "spacy_verb_to_preposition_dep English = ''prep''"
| "spacy_verb_to_preposition_dep German = ''mo''"

fun holmes_noun_to_preposition_dep :: "language \<Rightarrow> string" where
  "holmes_noun_to_preposition_dep English = ''prepposs''"
| "holmes_noun_to_preposition_dep German = ''mnrposs''"

fun holmes_verb_to_preposition_dep :: "language \<Rightarrow> string" where
  "holmes_verb_to_preposition_dep English = ''prepposs''"
| "holmes_verb_to_preposition_dep German = ''moposs''"

text \<open>
  \<open>loop_token_and_righthand_siblings\<close> is a generator: it yields
  \<open>doc[self.index]\<close> and then \<open>doc[righthand_sibling]\<close> for each sibling, each looked
  up when the loop asks for it. The list below is what it looks up, in that order.
\<close>

definition token_and_righthand_siblings :: "holmes_dictionary \<Rightarrow> int list" where
  "token_and_righthand_siblings h = index h # righthand_siblings h"

text \<open>
  The local function \<open>add_dependencies_pointing_to_preposition_and_siblings\<close> of
  \<open>_create_additional_preposition_phrase_semantic_dependencies\<close>; \<open>i\<close> is the
  position of the preposition the method was called for.
\<close>

definition add_dependencies_pointing_to_preposition_and_siblings ::
  "nat \<Rightarrow> nat \<Rightarrow> string \<Rightarrow> holmes_dictionary list \<Rightarrow> py_error + holmes_dictionary list" where
  "add_dependencies_pointing_to_preposition_and_siblings i parent new_label hs =
     for_each (token_and_righthand_siblings (hs ! i))
       (\<lambda>raw s.
          bind_err (doc_index (length s) raw)
            (\<lambda>working_preposition.
               if parent \<noteq> working_preposition
               then bind_err
                      (SemanticDependency_init (int parent) (int working_preposition)
                         (Some new_label) True)
                      (\<lambda>d. Inr (append_child parent d s))
               else Inr s))
       hs"

text \<open>
  The loop that checks that the preposition does not point back to a relative clause: it
  leaves the method at the first child whose token has a dependency labelled \<open>relcl\<close>.
\<close>

fun points_to_relative_clause :: "holmes_dictionary list \<Rightarrow> int list \<Rightarrow> py_error + bool" where
  "points_to_relative_clause hs [] = Inr False"
| "points_to_relative_clause hs (preposition_dep_index # rest) =
     bind_err (doc_index (length hs) preposition_dep_index)
       (\<lambda>c. if has_dependency_with_label (hs ! c) (Some ''relcl'') then Inr True
             else points_to_relative_clause hs rest)"

text \<open>
  \<open>_create_additional_preposition_phrase_semantic_dependencies\<close> for the token at
  position \<open>i\<close>. A sentence is the span of its bounds, and two spans are equal when
  their bounds are.
\<close>

definition create_additional_preposition_phrase_semantic_dependencies ::
  "language \<Rightarrow> bool \<Rightarrow> token list \<Rightarrow> nat \<Rightarrow> holmes_dictionary list \<Rightarrow>
   py_error + holmes_dictionary list" where
  "create_additional_preposition_phrase_semantic_dependencies lang coref toks i hs =
     (if tok_pos (toks ! i) = ''ADP''
      then
        (if i > 0 \<and>
            (tok_sent_start (toks ! (i - 1)), tok_sent_end (toks ! (i - 1))) =
              (tok_sent_start (toks ! i), tok_sent_end (toks ! i)) \<and>
            (tok_pos (toks ! (i - 1)) \<in> set [''NOUN'', ''PROPN''] \<or>
             is_involved_in_coreference coref toks hs (i - 1))
         then
           (let preceding_noun = i - 1;
                governing_verbs =
                  filter
                    (\<lambda>working_token.
                       working_token < i \<and> tok_pos (toks ! working_token) = ''VERB'' \<and>
                       has_dependency_with_child_index (hs ! working_token) (int preceding_noun))
                    [tok_sent_start (toks ! i)..<tok_sent_end (toks ! i)]
            in if length governing_verbs = 0 then Inr hs
               else bind_err
                      (for_each governing_verbs
                         (\<lambda>governing_verb s.
                            if has_dependency_with_child_index_and_label (s ! preceding_noun)
                                 (int i) (Some (spacy_noun_to_preposition_dep lang)) \<and>
                               \<not> has_dependency_with_child_index_and_label (s ! governing_verb)
                                   (int i) (Some (spacy_verb_to_preposition_dep lang))
                            then add_dependencies_pointing_to_preposition_and_siblings i
                                   governing_verb (holmes_verb_to_preposition_dep lang) s
                            else Inr s)
                         hs)
                      (\<lambda>hs1.
                         if has_dependency_with_child_index_and_label (hs1 ! hd governing_verbs)
                              (int i) (Some (spacy_verb_to_preposition_dep lang)) \<and>
                            \<not> has_dependency_with_child_index_and_label (hs1 ! preceding_noun)
                                (int i) (Some (spacy_noun_to_preposition_dep lang))
                         then bind_err
                                (points_to_relative_clause hs1
                                   (map child_index (children (hs1 ! i))))
                                (\<lambda>found.
                                   if found then Inr hs1
                                   else add_dependencies_pointing_to_preposition_and_siblings i
                                          preceding_noun (holmes_noun_to_preposition_dep lang) hs1)
                         else Inr hs1))
         else Inr hs)
      else Inr hs)"

definition create_additional_preposition_phrase_semantic_dependencies_pass ::
  "language \<Rightarrow> bool \<Rightarrow> token list \<Rightarrow> holmes_dictionary list \<Rightarrow> py_error + holmes_dictionary list" where
  "create_additional_preposition_phrase_semantic_dependencies_pass lang coref toks hs =
     for_each [0..<length toks]
       (create_additional_preposition_phrase_semantic_dependencies lang coref toks) hs"

text \<open>
  \<open>only_adds Q hs hs'\<close>: the same tokens, and every dictionary is the former one with
  edges satisfying \<open>Q\<close> added at the end of its children.
\<close>

definition only_adds ::
  "(semantic_dependency \<Rightarrow> bool) \<Rightarrow> holmes_dictionary list \<Rightarrow> holmes_dictionary list \<Rightarrow> bool" where
  "only_adds Q hs hs' =
     (length hs' = length hs \<and>
      (\<forall>k<length hs. \<exists>added.
         hs' ! k = (hs ! k)\<lparr>children := children (hs ! k) @ added\<rparr> \<and> list_all Q added))"

text \<open>
  ``Somebody needs insurance for a period'', one sentence of six tokens, with the
  preposition attached to the noun ``insurance''.
\<close>

definition in_sentence :: "nat \<Rightarrow> nat \<Rightarrow> token \<Rightarrow> token" where
  "in_sentence sent_start sent_end t = t\<lparr>tok_sent_start := sent_start, tok_sent_end := sent_end\<rparr>"

definition insurance_for_a_period :: "token list" where
  "insurance_for_a_period =
     map (in_sentence 0 6)
       [plain_token ''Somebody'' ''NOUN'' ''NN'' ''nsubj'' 1,
        plain_token ''needs'' ''VERB'' ''VBZ'' ''ROOT'' 1,
        plain_token ''insurance'' ''NOUN'' ''NN'' ''dobj'' 1,
        plain_token ''for'' ''ADP'' ''IN'' ''prep'' 2,
        plain_token ''a'' ''DET'' ''DT'' ''det'' 5,
        plain_token ''period'' ''NOUN'' ''NN'' ''pobj'' 3]"

definition insurance_for_a_period_dictionaries :: "holmes_dictionary list" where
  "insurance_for_a_period_dictionaries =
     [new_dictionary 0 ''somebody'',
      (new_dictionary 1 ''need'')\<lparr>children := [dep 1 0 ''nsubj'' False, dep 1 2 ''dobj'' False]\<rparr>,
      (new_dictionary 2 ''insurance'')\<lparr>children := [dep 2 3 ''prep'' False]\<rparr>,
      (new_dictionary 3 ''for'')\<lparr>children := [dep 3 5 ''pobj'' False]\<rparr>,
      new_dictionary 4 ''a'', new_dictionary 5 ''period'']"

section \<open>Properties of SemanticDependency\<close>

text \<open>
  C2. Constructing a SemanticDependency whose parent index equals its child index raises an
  error, and so does constructing one with a negative child index and a label; hence every
  SemanticDependency that was constructed has different parent and child indexes, and has no
  label when its child index is negative.
\<close>

theorem C2_constructor_invariant:
  "(\<exists>e. SemanticDependency_init p p l u = Inl e) \<and>
   (c < 0 \<and> l \<noteq> None \<longrightarrow> (\<exists>e. SemanticDependency_init q c l u = Inl e)) \<and>
   (SemanticDependency_init q c l u = Inr d \<longrightarrow>
      parent_index d \<noteq> child_index d \<and> (child_index d < 0 \<longrightarrow> label d = None))"
  by (auto simp: SemanticDependency_init_def split: if_splits)

theorem C2_constructor_invariant_witness:
  "(\<exists>e. SemanticDependency_init 4 4 (Some ''nsubj'') False = Inl e) \<and>
   (\<exists>e. SemanticDependency_init 2 (- 3) (Some ''nsubj'') False = Inl e) \<and>
   SemanticDependency_init 2 (- 3) None False =
     Inr \<lparr>parent_index = 2, child_index = - 3, label = None, is_uncertain = False\<rparr> \<and>
   parent_index \<lparr>parent_index = 2, child_index = - 3, label = None, is_uncertain = False\<rparr>
     \<noteq> child_index \<lparr>parent_index = 2, child_index = - 3, label = None, is_uncertain = False\<rparr> \<and>
   label \<lparr>parent_index = 2, child_index = - 3, label = None, is_uncertain = False\<rparr> = None"
proof -
  have ok: "SemanticDependency_init 2 (- 3) None False =
      Inr \<lparr>parent_index = 2, child_index = - 3, label = None, is_uncertain = False\<rparr>"
    by (simp add: SemanticDependency_init_def)
  have neg: "(- 3 :: int) < 0 \<and> Some ''nsubj'' \<noteq> None"
    by simp
  from C2_constructor_invariant [of 4 "Some ''nsubj''" False "- 3" 2 "undefined"]
  have a: "\<exists>e. SemanticDependency_init 4 4 (Some ''nsubj'') False = Inl e"
    by blast
  from C2_constructor_invariant [of 2 "Some ''nsubj''" False "- 3" 2 "undefined"] neg
  have b: "\<exists>e. SemanticDependency_init 2 (- 3) (Some ''nsubj'') False = Inl e"
    by blast
  from C2_constructor_invariant [of 2 None False "- 3" 2
      "\<lparr>parent_index = 2, child_index = - 3, label = None, is_uncertain = False\<rparr>"] ok
  have c: "parent_index \<lparr>parent_index = 2, child_index = - 3, label = None, is_uncertain = False\<rparr>
     \<noteq> child_index \<lparr>parent_index = 2, child_index = - 3, label = None, is_uncertain = False\<rparr> \<and>
     label \<lparr>parent_index = 2, child_index = - 3, label = None, is_uncertain = False\<rparr> = None"
    by simp
  from a b ok c show ?thesis by blast
qed

text \<open>
  C3. Equality and hashing of SemanticDependency look at the pair of parent index and child
  index only: two dependencies with the same pair are equal and have the same hash whatever
  their labels and uncertainty flags are, and two dependencies that differ in one of the two
  indexes are unequal.
\<close>

theorem C3_eq_hash_on_index_pair:
  "(parent_index a = parent_index b \<and> child_index a = child_index b \<longrightarrow>
      SemanticDependency_eq a (SemDep b) \<and> \<not> SemanticDependency_ne a (SemDep b) \<and>
      SemanticDependency_hash tuple_hash a = SemanticDependency_hash tuple_hash b) \<and>
   (parent_index a \<noteq> parent_index b \<or> child_index a \<noteq> child_index b \<longrightarrow>
      \<not> SemanticDependency_eq a (SemDep b) \<and> SemanticDependency_ne a (SemDep b))"
  by (auto simp: SemanticDependency_ne_def SemanticDependency_hash_def)

theorem C3_eq_hash_on_index_pair_witness:
  "SemanticDependency_eq
      \<lparr>parent_index = 2, child_index = 1, label = Some ''nsubj'', is_uncertain = False\<rparr>
      (SemDep \<lparr>parent_index = 2, child_index = 1, label = Some ''dobj'', is_uncertain = True\<rparr>) \<and>
   SemanticDependency_hash (\<lambda>(p, c). 31 * p + c)
      \<lparr>parent_index = 2, child_index = 1, label = Some ''nsubj'', is_uncertain = False\<rparr> =
   SemanticDependency_hash (\<lambda>(p, c). 31 * p + c)
      \<lparr>parent_index = 2, child_index = 1, label = Some ''dobj'', is_uncertain = True\<rparr> \<and>
   \<not> SemanticDependency_eq
      \<lparr>parent_index = 2, child_index = 1, label = Some ''nsubj'', is_uncertain = False\<rparr>
      (SemDep \<lparr>parent_index = 2, child_index = 3, label = Some ''nsubj'', is_uncertain = False\<rparr>)"
  using C3_eq_hash_on_index_pair
    [of "\<lparr>parent_index = 2, child_index = 1, label = Some ''nsubj'', is_uncertain = False\<rparr>"
        "\<lparr>parent_index = 2, child_index = 1, label = Some ''dobj'', is_uncertain = True\<rparr>"
        "\<lambda>(p, c). 31 * p + c"]
    C3_eq_hash_on_index_pair
    [of "\<lparr>parent_index = 2, child_index = 1, label = Some ''nsubj'', is_uncertain = False\<rparr>"
        "\<lparr>parent_index = 2, child_index = 3, label = Some ''nsubj'', is_uncertain = False\<rparr>"
        "\<lambda>(p, c). 31 * p + c"]
  by simp

text \<open>
  C6. A text longer than the configured maximum (1000000 by default) makes parsing raise the
  oversized-input error whatever the parser and the later passes would do, so before
  any parsing and with no token produced; a text of at most the maximum length is handed
  to the parser, and the size check raises nothing.
\<close>

theorem C6_size_bound:
  "(length text > m \<longrightarrow>
      spacy_parse m nlp text = Inl (DocumentTooBigError (length text) m) \<and>
      parse m nlp holmes_parse text = Inl (DocumentTooBigError (length text) m)) \<and>
   (length text \<le> m \<longrightarrow>
      spacy_parse m nlp text = nlp text \<and>
      parse m nlp holmes_parse text = bind_err (nlp text) holmes_parse) \<and>
   (length text > default_maximum_document_size \<longrightarrow>
      spacy_parse default_maximum_document_size nlp text =
        Inl (DocumentTooBigError (length text) 1000000))"
  by (simp add: spacy_parse_def parse_def bind_err_def default_maximum_document_size_def)

theorem C6_size_bound_witness:
  "spacy_parse 3 (\<lambda>t. Inr (length t)) ''abcd'' = Inl (DocumentTooBigError 4 3) \<and>
   parse 3 (\<lambda>t. Inr (length t)) Inr ''abcd'' = Inl (DocumentTooBigError 4 3) \<and>
   spacy_parse 3 (\<lambda>t. Inr (length t)) ''abc'' = Inr 3 \<and>
   spacy_parse default_maximum_document_size (\<lambda>t. Inr (length t)) (replicate 1000001 CHR ''a'') =
     Inl (DocumentTooBigError 1000001 1000000)"
  using C6_size_bound [of 3 "''abcd''" "\<lambda>t. Inr (length t)" Inr]
    C6_size_bound [of 3 "''abc''" "\<lambda>t. Inr (length t)" Inr]
    C6_size_bound [of default_maximum_document_size "replicate 1000001 CHR ''a''"
      "\<lambda>t. Inr (length t)" Inr]
  by (simp add: default_maximum_document_size_def)

section \<open>Properties of serialization\<close>

lemma bind_err_Inr [simp]: "bind_err (Inr v) f = f v"
  by (simp add: bind_err_def)

lemma bind_err_Inl [simp]: "bind_err (Inl e) f = Inl e"
  by (simp add: bind_err_def)

lemma detach_dictionaries_upt:
  "k \<le> length attrs \<Longrightarrow>
   detach_dictionaries [k..<length attrs]
     (take k attrs, replicate k NoneValue @ drop k attrs) =
   (attrs, replicate (length attrs) NoneValue)"
proof (induction "length attrs - k" arbitrary: k)
  case 0
  then show ?case by simp
next
  case (Suc m)
  then have lt: "k < length attrs" by simp
  have upd: "(replicate k NoneValue @ drop k attrs)[k := NoneValue] =
      replicate (Suc k) NoneValue @ drop (Suc k) attrs"
    using lt by (simp add: list_update_append replicate_append_same Cons_nth_drop_Suc [symmetric])
  have nth: "(replicate k NoneValue @ drop k attrs) ! k = attrs ! k"
    using lt by (simp add: nth_append)
  have tk: "take k attrs @ [attrs ! k] = take (Suc k) attrs"
    using lt by (simp add: take_Suc_conv_app_nth)
  have "Suc k \<le> length attrs" "m = length attrs - Suc k"
    using Suc.hyps(2) lt by simp_all
  from Suc.hyps(1) [OF this(2) this(1)] show ?case
    using lt by (simp add: upt_conv_Cons nth upd tk del: replicate_Suc)
qed

lemma detach_dictionaries_all:
  "detach_dictionaries [0..<length attrs] ([], attrs) = (attrs, replicate (length attrs) NoneValue)"
  using detach_dictionaries_upt [of 0 attrs] by simp

lemma attach_loop_upt:
  "length a = length dictionaries \<Longrightarrow> k \<le> length dictionaries \<Longrightarrow>
   for_each [k..<length dictionaries]
     (\<lambda>i a. bind_err (py_nth dictionaries i) (\<lambda>d. Inr (a[i := d])))
     (take k dictionaries @ drop k a) = Inr dictionaries"
proof (induction "length dictionaries - k" arbitrary: k)
  case 0
  then show ?case by simp
next
  case (Suc m)
  then have lt: "k < length dictionaries" by simp
  have upd: "(take k dictionaries @ drop k a)[k := dictionaries ! k] =
      take (Suc k) dictionaries @ drop (Suc k) a"
    using lt Suc.prems
    by (simp add: list_update_append take_Suc_conv_app_nth Cons_nth_drop_Suc [symmetric])
  have "m = length dictionaries - Suc k" "Suc k \<le> length dictionaries"
    using Suc.hyps(2) lt by simp_all
  from Suc.hyps(1) [OF this(1) Suc.prems(1) this(2)] show ?case
    using lt by (simp add: upt_conv_Cons py_nth_def upd)
qed

lemma attach_dictionaries_same_length:
  "length a = length dictionaries \<Longrightarrow> attach_dictionaries dictionaries a = Inr dictionaries"
  using attach_loop_upt [of a dictionaries 0] by (simp add: attach_dictionaries_def)

lemma bind_err_eq_Inr: "bind_err m f = Inr r \<longleftrightarrow> (\<exists>v. m = Inr v \<and> f v = Inr r)"
  by (cases m) simp_all

lemma to_serialized_string_eq:
  "to_serialized_string self_model to_bytes encode (d, attrs) =
     bind_err (to_bytes d (replicate (length attrs) NoneValue))
       (\<lambda>bytes. bind_err
          (encode \<lparr>sd_serialized_spacy_document = bytes, sd_dictionaries = attrs,
             sd_model = self_model\<rparr>)
          (\<lambda>s. Inr (s, (d, attrs))))"
  by (simp add: to_serialized_string_def detach_dictionaries_all attach_dictionaries_same_length)

text \<open>
  C10. to_serialized_string has no net effect on its input document: when the call returns,
  every token's holmes attribute holds what it held before the call. The call returns
  whenever spaCy's \<open>to_bytes\<close> and jsonpickle's \<open>encode\<close> do (the second loop never
  reads past the list of detached dictionaries).
\<close>

theorem C10_to_serialized_string_restores:
  "(to_serialized_string self_model to_bytes encode (d, attrs) = Inr (s, doc') \<longrightarrow>
      doc' = (d, attrs)) \<and>
   (to_bytes d (replicate (length attrs) NoneValue) = Inr bytes \<and>
    encode \<lparr>sd_serialized_spacy_document = bytes, sd_dictionaries = attrs,
      sd_model = self_model\<rparr> = Inr s \<longrightarrow>
      to_serialized_string self_model to_bytes encode (d, attrs) = Inr (s, (d, attrs)))"
  by (auto simp: to_serialized_string_eq bind_err_eq_Inr)

theorem C10_to_serialized_string_restores_witness:
  "to_serialized_string ''en_core_web_sm'' (\<lambda>d a. Inr (d, a)) Inr
      (0 :: nat, [Holmes \<lparr>index = 0, holmes_lemma = ''town'', children = [],
          righthand_siblings = [], is_involved_in_or_conjunction = False,
          is_negated = Some False, is_matchable = Some True\<rparr>, EmptyString]) =
   Inr (\<lparr>sd_serialized_spacy_document = (0, [NoneValue, NoneValue]),
         sd_dictionaries = [Holmes \<lparr>index = 0, holmes_lemma = ''town'', children = [],
          righthand_siblings = [], is_involved_in_or_conjunction = False,
          is_negated = Some False, is_matchable = Some True\<rparr>, EmptyString],
         sd_model = ''en_core_web_sm''\<rparr>,
        (0, [Holmes \<lparr>index = 0, holmes_lemma = ''town'', children = [],
          righthand_siblings = [], is_involved_in_or_conjunction = False,
          is_negated = Some False, is_matchable = Some True\<rparr>, EmptyString]))"
  using C10_to_serialized_string_restores
    [where self_model = "''en_core_web_sm''" and to_bytes = "\<lambda>d a. Inr (d, a)" and encode = Inr
      and d = "0 :: nat"
      and attrs = "[Holmes \<lparr>index = 0, holmes_lemma = ''town'', children = [],
          righthand_siblings = [], is_involved_in_or_conjunction = False,
          is_negated = Some False, is_matchable = Some True\<rparr>, EmptyString]"
      and bytes = "(0 :: nat, [NoneValue, NoneValue])"
      and s = "\<lparr>sd_serialized_spacy_document = (0 :: nat, [NoneValue, NoneValue]),
         sd_dictionaries = [Holmes \<lparr>index = 0, holmes_lemma = ''town'', children = [],
          righthand_siblings = [], is_involved_in_or_conjunction = False,
          is_negated = Some False, is_matchable = Some True\<rparr>, EmptyString],
         sd_model = ''en_core_web_sm''\<rparr>"]
  by (simp add: numeral_2_eq_2)

text \<open>
  C7. Serializing a document and reconstructing it on an analyzer with the same model gives
  back the same value of the holmes attribute for every token; reconstructing on an analyzer
  whose model differs from the one recorded in the serialized form raises the model-mismatch
  error, which carries the recorded model, and returns no document. For the first part the
  two libraries are assumed to round-trip: jsonpickle's \<open>decode\<close> inverts
  \<open>encode\<close> and spaCy's \<open>from_bytes\<close> inverts \<open>to_bytes\<close>.
\<close>

theorem C7_round_trip:
  "((\<forall>sd s. encode sd = Inr s \<longrightarrow> decode s = Inr sd) \<and>
    (\<forall>d a b. to_bytes d a = Inr b \<longrightarrow> from_bytes b = Inr (d, a)) \<and>
    to_serialized_string m to_bytes encode (d, attrs) = Inr (s, doc') \<longrightarrow>
      from_serialized_string m decode from_bytes s = Inr (d, attrs)) \<and>
   (decode s' = Inr sd' \<and> sd_model sd' \<noteq> m' \<longrightarrow>
      from_serialized_string m' decode from_bytes s' =
        Inl (WrongModelDeserializationError (sd_model sd')))"
proof (intro conjI impI)
  assume h: "(\<forall>sd s. encode sd = Inr s \<longrightarrow> decode s = Inr sd) \<and>
    (\<forall>d a b. to_bytes d a = Inr b \<longrightarrow> from_bytes b = Inr (d, a)) \<and>
    to_serialized_string m to_bytes encode (d, attrs) = Inr (s, doc')"
  then obtain bytes where
    b: "to_bytes d (replicate (length attrs) NoneValue) = Inr bytes" and
    e: "encode \<lparr>sd_serialized_spacy_document = bytes, sd_dictionaries = attrs,
          sd_model = m\<rparr> = Inr s"
    by (auto simp: to_serialized_string_eq bind_err_eq_Inr)
  from h e have dec: "decode s = Inr \<lparr>sd_serialized_spacy_document = bytes,
      sd_dictionaries = attrs, sd_model = m\<rparr>"
    by blast
  from h b have fb: "from_bytes bytes = Inr (d, replicate (length attrs) NoneValue)"
    by blast
  show "from_serialized_string m decode from_bytes s = Inr (d, attrs)"
    by (simp add: from_serialized_string_def holmes_document_def dec fb
        attach_dictionaries_same_length)
next
  assume "decode s' = Inr sd' \<and> sd_model sd' \<noteq> m'"
  then show "from_serialized_string m' decode from_bytes s' =
      Inl (WrongModelDeserializationError (sd_model sd'))"
    by (simp add: from_serialized_string_def)
qed

theorem C7_round_trip_witness:
  "from_serialized_string ''en_core_web_sm'' Inr Inr
     \<lparr>sd_serialized_spacy_document = (0 :: nat, [NoneValue]),
      sd_dictionaries = [Holmes \<lparr>index = 0, holmes_lemma = ''town'', children = [],
          righthand_siblings = [], is_involved_in_or_conjunction = False,
          is_negated = Some False, is_matchable = Some True\<rparr>],
      sd_model = ''en_core_web_sm''\<rparr> =
   Inr (0, [Holmes \<lparr>index = 0, holmes_lemma = ''town'', children = [],
          righthand_siblings = [], is_involved_in_or_conjunction = False,
          is_negated = Some False, is_matchable = Some True\<rparr>]) \<and>
   from_serialized_string ''de_core_news_sm'' Inr
     (Inr :: nat \<times> holmes_attr list \<Rightarrow> py_error + nat \<times> holmes_attr list)
     \<lparr>sd_serialized_spacy_document = (0 :: nat, [NoneValue]),
      sd_dictionaries = [Holmes \<lparr>index = 0, holmes_lemma = ''town'', children = [],
          righthand_siblings = [], is_involved_in_or_conjunction = False,
          is_negated = Some False, is_matchable = Some True\<rparr>],
      sd_model = ''en_core_web_sm''\<rparr> =
   Inl (WrongModelDeserializationError ''en_core_web_sm'')"
proof -
  let ?h = "Holmes \<lparr>index = 0, holmes_lemma = ''town'', children = [],
          righthand_siblings = [], is_involved_in_or_conjunction = False,
          is_negated = Some False, is_matchable = Some True\<rparr>"
  let ?sd = "\<lparr>sd_serialized_spacy_document = (0 :: nat, [NoneValue]),
      sd_dictionaries = [?h], sd_model = ''en_core_web_sm''\<rparr>"
  have ser: "to_serialized_string ''en_core_web_sm'' (\<lambda>d a. Inr (d, a)) Inr (0 :: nat, [?h]) =
      Inr (?sd, (0, [?h]))"
    by (simp add: to_serialized_string_eq)
  have h1: "\<forall>sd s. (Inr sd :: py_error + (nat \<times> holmes_attr list) serialized_holmes_document) =
      Inr s \<longrightarrow> (Inr s :: py_error + (nat \<times> holmes_attr list) serialized_holmes_document) = Inr sd"
    by simp
  have h2: "\<forall>(d :: nat) (a :: holmes_attr list) b.
      (Inr (d, a) :: py_error + nat \<times> holmes_attr list) = Inr b \<longrightarrow>
      (Inr b :: py_error + nat \<times> holmes_attr list) = Inr (d, a)"
    by simp
  have dec: "(Inr ?sd :: py_error + (nat \<times> holmes_attr list) serialized_holmes_document) =
      Inr ?sd \<and> sd_model ?sd \<noteq> ''de_core_news_sm''"
    by simp
  from C7_round_trip [where encode = Inr and decode = Inr and to_bytes = "\<lambda>d a. Inr (d, a)"
      and from_bytes = Inr and m = "''en_core_web_sm''" and d = "0 :: nat" and attrs = "[?h]"
      and s = ?sd and doc' = "(0, [?h])" and s' = ?sd and sd' = ?sd
      and m' = "''de_core_news_sm''"] ser h1 h2 dec
  show ?thesis by simp
qed

section \<open>Properties of the coordination pass\<close>

lemma for_each_append:
  "for_each (xs @ ys) body s = bind_err (for_each xs body s) (for_each ys body)"
proof (induction xs arbitrary: s)
  case Nil
  show ?case by simp
next
  case (Cons x xs)
  show ?case by (cases "body x s") (simp_all add: Cons.IH)
qed

lemma for_each_invariant:
  assumes "for_each xs body s = Inr s'" and "P s"
    and "\<And>x t t'. x \<in> set xs \<Longrightarrow> P t \<Longrightarrow> body x t = Inr t' \<Longrightarrow> P t'"
  shows "P s'"
  using assms
proof (induction xs arbitrary: s)
  case Nil
  then show ?case by simp
next
  case (Cons x xs)
  from Cons.prems(1) obtain t where t: "body x s = Inr t" "for_each xs body t = Inr s'"
    by (auto simp: bind_err_eq_Inr)
  have Pt: "P t"
    by (rule Cons.prems(3) [of x s t]) (simp_all add: Cons.prems(2) t(1))
  show ?case
  proof (rule Cons.IH [OF t(2) Pt])
    fix y u u'
    assume "y \<in> set xs" "P u" "body y u = Inr u'"
    then show "P u'" using Cons.prems(3) [of y u u'] by simp
  qed
qed

lemma for_each_split:
  assumes "for_each xs body s = Inr s'" and "x \<in> set xs"
  shows "\<exists>ys zs s1 s2. xs = ys @ x # zs \<and> for_each ys body s = Inr s1 \<and>
           body x s1 = Inr s2 \<and> for_each zs body s2 = Inr s'"
proof -
  from assms(2) obtain ys zs where xs: "xs = ys @ x # zs"
    by (auto simp: in_set_conv_decomp)
  from assms(1) obtain s1 where s1: "for_each ys body s = Inr s1" "for_each (x # zs) body s1 = Inr s'"
    unfolding xs for_each_append by (auto simp: bind_err_eq_Inr)
  from s1(2) obtain s2 where "body x s1 = Inr s2" "for_each zs body s2 = Inr s'"
    by (auto simp: bind_err_eq_Inr)
  with xs s1(1) show ?thesis by blast
qed

lemma grows_refl: "grows Q hs hs"
  by (simp add: grows_def)

lemma grows_trans: "grows Q a b \<Longrightarrow> grows Q b c \<Longrightarrow> grows Q a c"
  unfolding grows_def
proof (intro conjI allI impI)
  assume ab: "length b = length a \<and>
      (\<forall>k<length a. righthand_siblings (b ! k) = righthand_siblings (a ! k) \<and>
         (\<exists>added. children (b ! k) = children (a ! k) @ added \<and> list_all (Q k) added))"
    and bc: "length c = length b \<and>
      (\<forall>k<length b. righthand_siblings (c ! k) = righthand_siblings (b ! k) \<and>
         (\<exists>added. children (c ! k) = children (b ! k) @ added \<and> list_all (Q k) added))"
  show "length c = length a" using ab bc by simp
  fix k assume k: "k < length a"
  show "righthand_siblings (c ! k) = righthand_siblings (a ! k)" using ab bc k by simp
  from ab k obtain x where x: "children (b ! k) = children (a ! k) @ x" "list_all (Q k) x"
    by blast
  from bc ab k obtain y where y: "children (c ! k) = children (b ! k) @ y" "list_all (Q k) y"
    by auto
  have "children (c ! k) = children (a ! k) @ (x @ y) \<and> list_all (Q k) (x @ y)"
    using x y by simp
  then show "\<exists>added. children (c ! k) = children (a ! k) @ added \<and> list_all (Q k) added"
    by blast
qed

lemma grows_length: "grows Q hs hs' \<Longrightarrow> length hs' = length hs"
  by (simp add: grows_def)

lemma grows_siblings:
  "grows Q hs hs' \<Longrightarrow> k < length hs \<Longrightarrow> righthand_siblings (hs' ! k) = righthand_siblings (hs ! k)"
  by (simp add: grows_def)

lemma grows_children_subset:
  "grows Q hs hs' \<Longrightarrow> k < length hs \<Longrightarrow> set (children (hs ! k)) \<subseteq> set (children (hs' ! k))"
  by (auto simp: grows_def)

lemma grows_has_child:
  "grows Q hs hs' \<Longrightarrow> k < length hs \<Longrightarrow> has_dependency_with_child_index (hs ! k) c \<Longrightarrow>
   has_dependency_with_child_index (hs' ! k) c"
  using grows_children_subset [of Q hs hs' k]
  by (auto simp: has_dependency_with_child_index_def list_ex_iff)

lemma grows_has_label:
  "grows Q hs hs' \<Longrightarrow> k < length hs \<Longrightarrow> has_dependency_with_label (hs ! k) l \<Longrightarrow>
   has_dependency_with_label (hs' ! k) l"
  using grows_children_subset [of Q hs hs' k]
  by (auto simp: has_dependency_with_label_def list_ex_iff)

lemma grows_append_child:
  assumes "Q j e"
  shows "grows Q hs (append_child j e hs)"
  unfolding grows_def append_child_def
proof (intro conjI allI impI)
  show "length (hs[j := (hs ! j)\<lparr>children := children (hs ! j) @ [e]\<rparr>]) = length hs"
    by simp
next
  fix k assume "k < length hs"
  then show "righthand_siblings (hs[j := (hs ! j)\<lparr>children := children (hs ! j) @ [e]\<rparr>] ! k) =
      righthand_siblings (hs ! k)"
    by (cases "k = j") simp_all
next
  fix k assume "k < length hs"
  then show "\<exists>added. children (hs[j := (hs ! j)\<lparr>children := children (hs ! j) @ [e]\<rparr>] ! k) =
      children (hs ! k) @ added \<and> list_all (Q k) added"
    using assms by (cases "k = j") simp_all
qed

lemma grows_set_or_conjunction: "grows Q hs (set_or_conjunction j hs)"
  unfolding grows_def set_or_conjunction_def
proof (intro conjI allI impI)
  show "length (hs[j := (hs ! j)\<lparr>is_involved_in_or_conjunction := True\<rparr>]) = length hs"
    by simp
next
  fix k assume "k < length hs"
  then show "righthand_siblings (hs[j := (hs ! j)\<lparr>is_involved_in_or_conjunction := True\<rparr>] ! k) =
      righthand_siblings (hs ! k)"
    by (cases "k = j") simp_all
next
  fix k assume "k < length hs"
  then show "\<exists>added. children (hs[j := (hs ! j)\<lparr>is_involved_in_or_conjunction := True\<rparr>] ! k) =
      children (hs ! k) @ added \<and> list_all (Q k) added"
    by (cases "k = j") simp_all
qed

lemma doc_index_less: "doc_index n k = Inr j \<Longrightarrow> j < n"
  by (auto simp: doc_index_def Let_def split: if_splits)

lemma copy_or_conjunction_flag_grows:
  assumes "copy_or_conjunction_flag i hs = Inr hs'"
  shows "grows Q hs hs'"
proof (cases "is_involved_in_or_conjunction (hs ! i)")
  case False
  with assms show ?thesis by (simp add: copy_or_conjunction_flag_def grows_refl)
next
  case True
  with assms have loop: "for_each (righthand_siblings (hs ! i))
      (\<lambda>righthand_sibling s. bind_err (doc_index (length s) righthand_sibling)
         (\<lambda>j. Inr (set_or_conjunction j s))) hs = Inr hs'"
    by (simp add: copy_or_conjunction_flag_def)
  show ?thesis
  proof (rule for_each_invariant [OF loop, where P = "grows Q hs"])
    show "grows Q hs hs" by (rule grows_refl)
  next
    fix x t t'
    assume "grows Q hs t"
      and "bind_err (doc_index (length t) x) (\<lambda>j. Inr (set_or_conjunction j t)) = Inr t'"
    then show "grows Q hs t'"
      by (auto simp: bind_err_eq_Inr intro: grows_trans grows_set_or_conjunction)
  qed
qed

text \<open>
  The edge that the first inner loop of \<open>_copy_any_sibling_info\<close> makes of a
  dependency of token \<open>i\<close> and a righthand sibling of its child, and the edge that the
  second inner loop makes of a dependency and a righthand sibling of the token.
\<close>

lemma add_dependency_to_child_sibling_grows:
  assumes "add_dependency_to_child_sibling i dependency crs hs = Inr hs'"
    and "Q i \<lparr>parent_index = int i,
           child_index = (if child_index dependency < 0 then 0 - (crs + 1) else crs),
           label = label dependency, is_uncertain = is_uncertain dependency\<rparr>"
  shows "grows Q hs hs'"
  using assms
  by (auto simp: add_dependency_to_child_sibling_def Let_def bind_err_eq_Inr
      SemanticDependency_init_def grows_refl
      split: if_splits intro!: grows_append_child)

lemma add_dependency_to_righthand_sibling_grows:
  assumes "add_dependency_to_righthand_sibling lang dependency rs hs = Inr hs'"
    and "\<And>j. doc_index (length hs) rs = Inr j \<Longrightarrow>
           label dependency \<notin> set (map Some (conjunction_deps lang)) \<Longrightarrow>
           rs \<noteq> child_index dependency \<Longrightarrow>
           Q j \<lparr>parent_index = rs, child_index = child_index dependency,
             label = label dependency,
             is_uncertain = mark_child_dependencies_copied_to_siblings_as_uncertain lang\<rparr>"
  shows "grows Q hs hs'"
proof -
  from assms(1) obtain j where j: "doc_index (length hs) rs = Inr j"
    by (auto simp: add_dependency_to_righthand_sibling_def bind_err_eq_Inr)
  show ?thesis
  proof (cases "hs' = hs")
    case True
    then show ?thesis by (simp add: grows_refl)
  next
    case False
    with assms(1) j have c: "label dependency \<notin> set (map Some (conjunction_deps lang))"
        "rs \<noteq> child_index dependency"
      and r: "hs' = append_child j \<lparr>parent_index = rs, child_index = child_index dependency,
           label = label dependency,
           is_uncertain = mark_child_dependencies_copied_to_siblings_as_uncertain lang\<rparr> hs"
      by (auto simp: add_dependency_to_righthand_sibling_def bind_err_eq_Inr
          SemanticDependency_init_def split: if_splits)
    show ?thesis unfolding r by (rule grows_append_child) (rule assms(2) [OF j c])
  qed
qed

lemma child_sibling_loop_grows:
  assumes "for_each xs (add_dependency_to_child_sibling i dependency) hs = Inr hs'"
    and "\<And>crs. crs \<in> set xs \<Longrightarrow>
           Q i \<lparr>parent_index = int i,
             child_index = (if child_index dependency < 0 then 0 - (crs + 1) else crs),
             label = label dependency, is_uncertain = is_uncertain dependency\<rparr>"
  shows "grows Q hs hs'"
proof (rule for_each_invariant [OF assms(1), where P = "grows Q hs"])
  show "grows Q hs hs" by (rule grows_refl)
next
  fix x t t'
  assume "x \<in> set xs" "grows Q hs t" "add_dependency_to_child_sibling i dependency x t = Inr t'"
  then show "grows Q hs t'"
    using add_dependency_to_child_sibling_grows [of i dependency x t t' Q] assms(2)
    by (blast intro: grows_trans)
qed

lemma righthand_sibling_loop_grows:
  assumes "for_each xs (add_dependency_to_righthand_sibling lang dependency) hs = Inr hs'"
    and "\<And>rs j. rs \<in> set xs \<Longrightarrow> doc_index (length hs) rs = Inr j \<Longrightarrow>
           label dependency \<notin> set (map Some (conjunction_deps lang)) \<Longrightarrow>
           rs \<noteq> child_index dependency \<Longrightarrow>
           Q j \<lparr>parent_index = rs, child_index = child_index dependency,
             label = label dependency,
             is_uncertain = mark_child_dependencies_copied_to_siblings_as_uncertain lang\<rparr>"
  shows "grows Q hs hs'"
proof (rule for_each_invariant [OF assms(1), where P = "grows Q hs"])
  show "grows Q hs hs" by (rule grows_refl)
next
  fix x t t'
  assume x: "x \<in> set xs" and t: "grows Q hs t"
    and step: "add_dependency_to_righthand_sibling lang dependency x t = Inr t'"
  have "grows Q t t'"
  proof (rule add_dependency_to_righthand_sibling_grows [OF step])
    fix j
    assume "doc_index (length t) x = Inr j"
      "label dependency \<notin> set (map Some (conjunction_deps lang))" "x \<noteq> child_index dependency"
    then show "Q j \<lparr>parent_index = x, child_index = child_index dependency,
        label = label dependency,
        is_uncertain = mark_child_dependencies_copied_to_siblings_as_uncertain lang\<rparr>"
      using assms(2) [OF x] grows_length [OF t] by simp
  qed
  with t show "grows Q hs t'" by (rule grows_trans)
qed

lemma copy_dependency_parts:
  assumes "copy_dependency lang i dependency hs = Inr hs'"
  shows "\<exists>c hs1. doc_index (length hs) (child_index dependency) = Inr c \<and>
           for_each (righthand_siblings (hs ! c))
             (add_dependency_to_child_sibling i dependency) hs = Inr hs1 \<and>
           for_each (filter (\<lambda>righthand_sibling. righthand_sibling \<noteq> child_index dependency)
                (righthand_siblings (hs1 ! i)))
             (add_dependency_to_righthand_sibling lang dependency) hs1 = Inr hs'"
  using assms by (auto simp: copy_dependency_def bind_err_eq_Inr)


lemma copy_dependency_grows:
  assumes step: "copy_dependency lang i dependency hs = Inr hs'"
    and i: "i < length hs"
    and r1: "\<And>c crs. doc_index (length hs) (child_index dependency) = Inr c \<Longrightarrow>
           crs \<in> set (righthand_siblings (hs ! c)) \<Longrightarrow>
           Q i \<lparr>parent_index = int i,
             child_index = (if child_index dependency < 0 then 0 - (crs + 1) else crs),
             label = label dependency, is_uncertain = is_uncertain dependency\<rparr>"
    and r2: "\<And>rs j. rs \<in> set (righthand_siblings (hs ! i)) \<Longrightarrow>
           doc_index (length hs) rs = Inr j \<Longrightarrow>
           label dependency \<notin> set (map Some (conjunction_deps lang)) \<Longrightarrow>
           rs \<noteq> child_index dependency \<Longrightarrow>
           Q j \<lparr>parent_index = rs, child_index = child_index dependency,
             label = label dependency,
             is_uncertain = mark_child_dependencies_copied_to_siblings_as_uncertain lang\<rparr>"
  shows "grows Q hs hs'"
proof -
  from copy_dependency_parts [OF step] obtain c hs1 where
    c: "doc_index (length hs) (child_index dependency) = Inr c" and
    p1: "for_each (righthand_siblings (hs ! c))
           (add_dependency_to_child_sibling i dependency) hs = Inr hs1" and
    p2: "for_each (filter (\<lambda>righthand_sibling. righthand_sibling \<noteq> child_index dependency)
              (righthand_siblings (hs1 ! i)))
           (add_dependency_to_righthand_sibling lang dependency) hs1 = Inr hs'"
    by blast
  have g1: "grows Q hs hs1"
    by (rule child_sibling_loop_grows [OF p1]) (rule r1 [OF c])
  have sib: "righthand_siblings (hs1 ! i) = righthand_siblings (hs ! i)"
    using g1 i by (rule grows_siblings)
  have "grows Q hs1 hs'"
  proof (rule righthand_sibling_loop_grows [OF p2])
    fix rs j
    assume "rs \<in> set (filter (\<lambda>righthand_sibling. righthand_sibling \<noteq> child_index dependency)
        (righthand_siblings (hs1 ! i)))"
      "doc_index (length hs1) rs = Inr j"
      "label dependency \<notin> set (map Some (conjunction_deps lang))" "rs \<noteq> child_index dependency"
    then show "Q j \<lparr>parent_index = rs, child_index = child_index dependency,
        label = label dependency,
        is_uncertain = mark_child_dependencies_copied_to_siblings_as_uncertain lang\<rparr>"
      using r2 [of rs j] sib grows_length [OF g1] by simp
  qed
  with g1 show ?thesis by (rule grows_trans)
qed

lemma copy_any_sibling_info_parts:
  assumes "copy_any_sibling_info lang i hs = Inr hs'"
  shows "\<exists>hs1. copy_or_conjunction_flag i hs = Inr hs1 \<and>
           for_each (children (hs1 ! i)) (copy_dependency lang i) hs1 = Inr hs'"
  using assms by (auto simp: copy_any_sibling_info_def bind_err_eq_Inr)


text \<open>
  A property \<open>Q\<close> of edges that holds for the edges at the start and is kept by the two
  copy rules holds for every edge that the pass adds.
\<close>

lemma grows_all_edges:
  assumes g: "grows Q hs t" and k: "k < length hs" and e: "e \<in> set (children (t ! k))"
    and start: "\<And>k e. k < length hs \<Longrightarrow> e \<in> set (children (hs ! k)) \<Longrightarrow> Q k e"
  shows "Q k e"
proof -
  from g k obtain added where a: "children (t ! k) = children (hs ! k) @ added"
    "list_all (Q k) added"
    by (auto simp: grows_def)
  from e a(1) consider "e \<in> set (children (hs ! k))" | "e \<in> set added"
    by auto
  then show ?thesis
  proof cases
    case 1
    then show ?thesis using start k by blast
  next
    case 2
    with a(2) show ?thesis by (simp add: list_all_iff)
  qed
qed

lemma copy_any_sibling_info_grows:
  assumes step: "copy_any_sibling_info lang i t = Inr t'"
    and t: "grows Q hs t"
    and i: "i < length hs"
    and start: "\<And>k e. k < length hs \<Longrightarrow> e \<in> set (children (hs ! k)) \<Longrightarrow> Q k e"
    and r1: "\<And>k e c y. Q k e \<Longrightarrow> k < length hs \<Longrightarrow>
           doc_index (length hs) (child_index e) = Inr c \<Longrightarrow>
           y \<in> set (righthand_siblings (hs ! c)) \<Longrightarrow>
           Q k \<lparr>parent_index = int k,
             child_index = (if child_index e < 0 then 0 - (y + 1) else y),
             label = label e, is_uncertain = is_uncertain e\<rparr>"
    and r2: "\<And>k e rs j. Q k e \<Longrightarrow> k < length hs \<Longrightarrow>
           rs \<in> set (righthand_siblings (hs ! k)) \<Longrightarrow> doc_index (length hs) rs = Inr j \<Longrightarrow>
           label e \<notin> set (map Some (conjunction_deps lang)) \<Longrightarrow> rs \<noteq> child_index e \<Longrightarrow>
           Q j \<lparr>parent_index = rs, child_index = child_index e, label = label e,
             is_uncertain = mark_child_dependencies_copied_to_siblings_as_uncertain lang\<rparr>"
  shows "grows Q hs t'"
proof -
  from copy_any_sibling_info_parts [OF step] obtain t1 where
    f: "copy_or_conjunction_flag i t = Inr t1" and
    l: "for_each (children (t1 ! i)) (copy_dependency lang i) t1 = Inr t'"
    by blast
  have t1: "grows Q hs t1"
    using t copy_or_conjunction_flag_grows [OF f] by (rule grows_trans)
  show ?thesis
  proof (rule for_each_invariant [OF l, where P = "grows Q hs"])
    show "grows Q hs t1" by (rule t1)
  next
    fix d u u'
    assume d: "d \<in> set (children (t1 ! i))" and u: "grows Q hs u"
      and body: "copy_dependency lang i d u = Inr u'"
    have Qd: "Q i d" by (rule grows_all_edges [OF t1 i d start])
    have len: "length u = length hs" by (rule grows_length [OF u])
    have "grows Q u u'"
    proof (rule copy_dependency_grows [OF body])
      show "i < length u" using i len by simp
    next
      fix c crs
      assume c: "doc_index (length u) (child_index d) = Inr c"
        and crs: "crs \<in> set (righthand_siblings (u ! c))"
      have "c < length hs" using doc_index_less [OF c] len by simp
      then have "crs \<in> set (righthand_siblings (hs ! c))"
        using grows_siblings [OF u] crs by simp
      then show "Q i \<lparr>parent_index = int i,
          child_index = (if child_index d < 0 then 0 - (crs + 1) else crs),
          label = label d, is_uncertain = is_uncertain d\<rparr>"
        using r1 [OF Qd i] c len by simp
    next
      fix rs j
      assume "rs \<in> set (righthand_siblings (u ! i))" "doc_index (length u) rs = Inr j"
        "label d \<notin> set (map Some (conjunction_deps lang))" "rs \<noteq> child_index d"
      then show "Q j \<lparr>parent_index = rs, child_index = child_index d, label = label d,
          is_uncertain = mark_child_dependencies_copied_to_siblings_as_uncertain lang\<rparr>"
        using r2 [OF Qd i, of rs j] grows_siblings [OF u i] len by simp
    qed
    with u show "grows Q hs u'" by (rule grows_trans)
  qed
qed

lemma pass_part_grows:
  assumes loop: "for_each xs (copy_any_sibling_info lang) t = Inr t'"
    and t: "grows Q hs t"
    and xs: "\<And>i. i \<in> set xs \<Longrightarrow> i < length hs"
    and start: "\<And>k e. k < length hs \<Longrightarrow> e \<in> set (children (hs ! k)) \<Longrightarrow> Q k e"
    and r1: "\<And>k e c y. Q k e \<Longrightarrow> k < length hs \<Longrightarrow>
           doc_index (length hs) (child_index e) = Inr c \<Longrightarrow>
           y \<in> set (righthand_siblings (hs ! c)) \<Longrightarrow>
           Q k \<lparr>parent_index = int k,
             child_index = (if child_index e < 0 then 0 - (y + 1) else y),
             label = label e, is_uncertain = is_uncertain e\<rparr>"
    and r2: "\<And>k e rs j. Q k e \<Longrightarrow> k < length hs \<Longrightarrow>
           rs \<in> set (righthand_siblings (hs ! k)) \<Longrightarrow> doc_index (length hs) rs = Inr j \<Longrightarrow>
           label e \<notin> set (map Some (conjunction_deps lang)) \<Longrightarrow> rs \<noteq> child_index e \<Longrightarrow>
           Q j \<lparr>parent_index = rs, child_index = child_index e, label = label e,
             is_uncertain = mark_child_dependencies_copied_to_siblings_as_uncertain lang\<rparr>"
  shows "grows Q hs t'"
proof (rule for_each_invariant [OF loop, where P = "grows Q hs"])
  show "grows Q hs t" by (rule t)
next
  fix x u u'
  assume x: "x \<in> set xs" and u: "grows Q hs u"
    and body: "copy_any_sibling_info lang x u = Inr u'"
  show "grows Q hs u'"
    by (rule copy_any_sibling_info_grows [OF body u xs [OF x] start r1 r2])
qed

text \<open>The three properties of edges that the theorem uses.\<close>

lemma pass_part_grows_any:
  assumes "for_each xs (copy_any_sibling_info lang) t = Inr t'"
    and "\<And>i. i \<in> set xs \<Longrightarrow> i < length t"
  shows "grows (\<lambda>k e. True) t t'"
  by (rule pass_part_grows [OF assms(1) grows_refl assms(2)]) simp_all

lemma copy_any_sibling_info_grows_any:
  assumes "copy_any_sibling_info lang i t = Inr t'" and "i < length t"
  shows "grows (\<lambda>k e. True) t t'"
  by (rule copy_any_sibling_info_grows [OF assms(1) grows_refl assms(2)]) simp_all

lemma copy_dependency_grows_any:
  "copy_dependency lang i dependency hs = Inr hs' \<Longrightarrow> i < length hs \<Longrightarrow>
   grows (\<lambda>k e. True) hs hs'"
  by (rule copy_dependency_grows) simp_all

lemma dependency_loop_grows_any:
  assumes "for_each xs (copy_dependency lang i) t = Inr t'" and i: "i < length t"
  shows "grows (\<lambda>k e. True) t t'"
proof (rule for_each_invariant [OF assms(1), where P = "grows (\<lambda>k e. True) t"])
  show "grows (\<lambda>k e. True) t t" by (rule grows_refl)
next
  fix x u u'
  assume u: "grows (\<lambda>k e. True) t u" and body: "copy_dependency lang i x u = Inr u'"
  have "i < length u" using i grows_length [OF u] by simp
  from copy_dependency_grows_any [OF body this] u show "grows (\<lambda>k e. True) t u'"
    by (blast intro: grows_trans)
qed

lemma copied_edge_provenance_cong:
  "copied_edge_provenance lang hs k e \<Longrightarrow> label e' = label e \<Longrightarrow>
   is_uncertain e' = is_uncertain e \<Longrightarrow> copied_edge_provenance lang hs k e'"
  by (simp add: copied_edge_provenance_def)


lemma pass_grows_provenance:
  assumes "copy_any_sibling_info_pass lang hs = Inr hs'"
  shows "grows (copied_edge_provenance lang hs) hs hs'"
proof (rule pass_part_grows [OF assms [unfolded copy_any_sibling_info_pass_def] grows_refl])
  fix k e
  assume "e \<in> set (children (hs ! k))"
  then show "copied_edge_provenance lang hs k e"
    by (auto simp: copied_edge_provenance_def list_ex_iff)
next
  fix k e c y
  assume "copied_edge_provenance lang hs k e"
  then show "copied_edge_provenance lang hs k \<lparr>parent_index = int k,
      child_index = (if child_index e < 0 then 0 - (y + 1) else y),
      label = label e, is_uncertain = is_uncertain e\<rparr>"
    by (rule copied_edge_provenance_cong) simp_all
next
  fix k e rs j
  show "copied_edge_provenance lang hs j \<lparr>parent_index = rs, child_index = child_index e,
      label = label e,
      is_uncertain = mark_child_dependencies_copied_to_siblings_as_uncertain lang\<rparr>"
    by (simp add: copied_edge_provenance_def)
qed simp

lemma pass_grows_propagated:
  assumes "copy_any_sibling_info_pass lang hs = Inr hs'"
  shows "grows (propagated_edge lang hs) hs hs'"
proof (rule pass_part_grows [OF assms [unfolded copy_any_sibling_info_pass_def] grows_refl])
  fix k e
  assume "k < length hs" "e \<in> set (children (hs ! k))"
  then show "propagated_edge lang hs k e" by (rule at_start)
next
  fix k e c y
  assume "propagated_edge lang hs k e" "doc_index (length hs) (child_index e) = Inr c"
    "y \<in> set (righthand_siblings (hs ! c))"
  then show "propagated_edge lang hs k \<lparr>parent_index = int k,
      child_index = (if child_index e < 0 then 0 - (y + 1) else y),
      label = label e, is_uncertain = is_uncertain e\<rparr>"
    by (rule to_sibling_of_child)
next
  fix k e rs j
  assume "propagated_edge lang hs k e" "rs \<in> set (righthand_siblings (hs ! k))"
    "doc_index (length hs) rs = Inr j"
    "label e \<notin> set (map Some (conjunction_deps lang))" "rs \<noteq> child_index e"
  then show "propagated_edge lang hs j \<lparr>parent_index = rs, child_index = child_index e,
      label = label e,
      is_uncertain = mark_child_dependencies_copied_to_siblings_as_uncertain lang\<rparr>"
    by (rule to_righthand_sibling)
qed simp

lemma add_dependency_to_righthand_sibling_effect:
  assumes "add_dependency_to_righthand_sibling lang d A v1 = Inr v2"
    and "child_index d \<noteq> A"
    and "label d \<notin> set (map Some (conjunction_deps lang))"
  shows "\<exists>a. doc_index (length v1) A = Inr a \<and>
           (has_dependency_with_child_index (v2 ! a) (child_index d) \<or>
            has_dependency_with_label (v2 ! a) (label d))"
proof -
  from assms(1) obtain a where a: "doc_index (length v1) A = Inr a"
    by (auto simp: add_dependency_to_righthand_sibling_def bind_err_eq_Inr)
  then have lt: "a < length v1" by (rule doc_index_less)
  show ?thesis
  proof (cases "has_dependency_with_child_index (v1 ! a) (child_index d) \<or>
      has_dependency_with_label (v1 ! a) (label d)")
    case True
    then have "v2 = v1"
      using assms(1) a
      by (auto simp: add_dependency_to_righthand_sibling_def has_dependency_with_label_def
          split: if_splits)
    with True a show ?thesis by blast
  next
    case False
    then have "v2 = append_child a \<lparr>parent_index = A, child_index = child_index d,
        label = label d,
        is_uncertain = mark_child_dependencies_copied_to_siblings_as_uncertain lang\<rparr> v1"
      using assms a
      by (auto simp: add_dependency_to_righthand_sibling_def has_dependency_with_label_def
          bind_err_eq_Inr SemanticDependency_init_def split: if_splits)
    then have "has_dependency_with_child_index (v2 ! a) (child_index d)"
      using lt by (simp add: append_child_def has_dependency_with_child_index_def)
    with a show ?thesis by blast
  qed
qed

lemma present_mono:
  assumes "grows Q t t'" and "a < length t"
    and "has_dependency_with_child_index (t ! a) c \<or> has_dependency_with_label (t ! a) l"
  shows "has_dependency_with_child_index (t' ! a) c \<or> has_dependency_with_label (t' ! a) l"
  using assms grows_has_child grows_has_label by blast

lemma copy_dependency_effect:
  assumes step: "copy_dependency lang i d t1 = Inr t2"
    and i: "i < length t1"
    and A: "A \<in> set (righthand_siblings (t1 ! i))"
    and ne: "child_index d \<noteq> A"
    and nc: "label d \<notin> set (map Some (conjunction_deps lang))"
  shows "\<exists>a. doc_index (length t1) A = Inr a \<and>
           (has_dependency_with_child_index (t2 ! a) (child_index d) \<or>
            has_dependency_with_label (t2 ! a) (label d))"
proof -
  from copy_dependency_parts [OF step] obtain c hs1 where
    p1: "for_each (righthand_siblings (t1 ! c))
           (add_dependency_to_child_sibling i d) t1 = Inr hs1" and
    p2: "for_each (filter (\<lambda>righthand_sibling. righthand_sibling \<noteq> child_index d)
              (righthand_siblings (hs1 ! i)))
           (add_dependency_to_righthand_sibling lang d) hs1 = Inr t2"
    by blast
  have g1: "grows (\<lambda>k e. True) t1 hs1"
    by (rule child_sibling_loop_grows [OF p1]) simp
  then have "righthand_siblings (hs1 ! i) = righthand_siblings (t1 ! i)"
    using i by (rule grows_siblings)
  with A ne have "A \<in> set (filter (\<lambda>righthand_sibling. righthand_sibling \<noteq> child_index d)
      (righthand_siblings (hs1 ! i)))"
    by auto
  from for_each_split [OF p2 this] obtain ys zs s1 s2 where
    before: "for_each ys (add_dependency_to_righthand_sibling lang d) hs1 = Inr s1" and
    body: "add_dependency_to_righthand_sibling lang d A s1 = Inr s2" and
    after: "for_each zs (add_dependency_to_righthand_sibling lang d) s2 = Inr t2"
    by blast
  have g2: "grows (\<lambda>k e. True) hs1 s1"
    by (rule righthand_sibling_loop_grows [OF before]) simp
  have g3: "grows (\<lambda>k e. True) s1 s2"
    by (rule add_dependency_to_righthand_sibling_grows [OF body]) simp
  have g4: "grows (\<lambda>k e. True) s2 t2"
    by (rule righthand_sibling_loop_grows [OF after]) simp
  have len: "length s1 = length t1" "length s2 = length t1"
    using g1 g2 g3 by (simp_all add: grows_length)
  from add_dependency_to_righthand_sibling_effect [OF body ne nc] obtain a where
    a: "doc_index (length s1) A = Inr a" and
    pr: "has_dependency_with_child_index (s2 ! a) (child_index d) \<or>
         has_dependency_with_label (s2 ! a) (label d)"
    by blast
  have "a < length s2" using doc_index_less [OF a] len by simp
  from present_mono [OF g4 this pr] a len show ?thesis by auto
qed

lemma copy_any_sibling_info_effect:
  assumes step: "copy_any_sibling_info lang B s1 = Inr s2"
    and B: "B < length s1"
    and A: "A \<in> set (righthand_siblings (s1 ! B))"
    and d: "d \<in> set (children (s1 ! B))"
    and ne: "child_index d \<noteq> A"
    and nc: "label d \<notin> set (map Some (conjunction_deps lang))"
  shows "\<exists>a. doc_index (length s1) A = Inr a \<and>
           (has_dependency_with_child_index (s2 ! a) (child_index d) \<or>
            has_dependency_with_label (s2 ! a) (label d))"
proof -
  from copy_any_sibling_info_parts [OF step] obtain t1 where
    f: "copy_or_conjunction_flag B s1 = Inr t1" and
    l: "for_each (children (t1 ! B)) (copy_dependency lang B) t1 = Inr s2"
    by blast
  have g0: "grows (\<lambda>k e. True) s1 t1"
    by (rule copy_or_conjunction_flag_grows [OF f])
  have "d \<in> set (children (t1 ! B))"
    using grows_children_subset [OF g0 B] d by blast
  from for_each_split [OF l this] obtain ys zs u1 u2 where
    before: "for_each ys (copy_dependency lang B) t1 = Inr u1" and
    body: "copy_dependency lang B d u1 = Inr u2" and
    after: "for_each zs (copy_dependency lang B) u2 = Inr s2"
    by blast
  have g1: "grows (\<lambda>k e. True) t1 u1" by (rule dependency_loop_grows_any [OF before]) (simp add: B grows_length [OF g0])
  have g01: "grows (\<lambda>k e. True) s1 u1" using g0 g1 by (rule grows_trans)
  have Bu: "B < length u1" using B grows_length [OF g01] by simp
  have g2: "grows (\<lambda>k e. True) u1 u2" by (rule copy_dependency_grows_any [OF body Bu])
  have g3: "grows (\<lambda>k e. True) u2 s2"
    by (rule dependency_loop_grows_any [OF after]) (simp add: Bu grows_length [OF g2])
  have len: "length u1 = length s1" "length u2 = length s1"
    using g01 g2 by (simp_all add: grows_length)
  have "A \<in> set (righthand_siblings (u1 ! B))"
    using grows_siblings [OF g01 B] A by simp
  from copy_dependency_effect [OF body _ this ne nc] B len obtain a where
    a: "doc_index (length u1) A = Inr a" and
    pr: "has_dependency_with_child_index (u2 ! a) (child_index d) \<or>
         has_dependency_with_label (u2 ! a) (label d)"
    by auto
  have "a < length u2" using doc_index_less [OF a] len by simp
  from present_mono [OF g3 this pr] a len show ?thesis by auto
qed

text \<open>
  C1, amended. Let the pass \<open>_copy_any_sibling_info\<close> over all tokens return. For
  every token \<open>A\<close> that is a righthand sibling of a token \<open>B\<close> and every
  edge \<open>(B, C, L)\<close> that \<open>B\<close> has when the pass starts, with \<open>L\<close>
  not a coordination label and \<open>C\<close> not \<open>A\<close> itself, \<open>A\<close> ends the
  pass with an edge to \<open>C\<close> or with an edge labelled \<open>L\<close> (the same-label
  check is made when the edge is copied, so an edge copied earlier in the pass blocks it too).
  Every edge a token has at the end is an edge it had at the start or an edge that the two
  copy rules make of such edges (\<open>propagated_edge\<close>): a copy to a righthand sibling
  has the sibling as its parent, the child and the label of the edge it copies, and the
  language's \<open>_mark_child_dependencies_copied_to_siblings_as_uncertain\<close> flag as its
  uncertainty. In particular every edge at the end carries that flag or repeats the label and
  the uncertainty of an edge the token had at the start.
\<close>

theorem C1_sibling_copy:
  assumes pass: "copy_any_sibling_info_pass lang hs = Inr hs'"
    and B: "B < length hs"
    and A: "A \<in> set (righthand_siblings (hs ! B))"
    and d: "d \<in> set (children (hs ! B))"
    and nc: "label d \<notin> set (map Some (conjunction_deps lang))"
    and ne: "child_index d \<noteq> A"
  shows "(\<exists>a. doc_index (length hs) A = Inr a \<and>
            (has_dependency_with_child_index (hs' ! a) (child_index d) \<or>
             has_dependency_with_label (hs' ! a) (label d))) \<and>
         (\<forall>k<length hs. \<forall>e\<in>set (children (hs' ! k)). propagated_edge lang hs k e) \<and>
         (\<forall>k<length hs. \<forall>e\<in>set (children (hs' ! k)). copied_edge_provenance lang hs k e)"
proof (intro conjI)
  have loop: "for_each [0..<length hs] (copy_any_sibling_info lang) hs = Inr hs'"
    using pass by (simp add: copy_any_sibling_info_pass_def)
  have "B \<in> set [0..<length hs]" using B by simp
  from for_each_split [OF loop this] obtain ys zs s1 s2 where
    xs: "[0..<length hs] = ys @ B # zs" and
    before: "for_each ys (copy_any_sibling_info lang) hs = Inr s1" and
    body: "copy_any_sibling_info lang B s1 = Inr s2" and
    after: "for_each zs (copy_any_sibling_info lang) s2 = Inr hs'"
    by blast
  have ys: "i < length hs" if "i \<in> set ys" for i
  proof -
    from that have "i \<in> set [0..<length hs]" unfolding xs by simp
    then show ?thesis by simp
  qed
  have zs: "i < length hs" if "i \<in> set zs" for i
  proof -
    from that have "i \<in> set [0..<length hs]" unfolding xs by simp
    then show ?thesis by simp
  qed
  have g1: "grows (\<lambda>k e. True) hs s1" by (rule pass_part_grows_any [OF before ys])
  have B1: "B < length s1" using B grows_length [OF g1] by simp
  have g2: "grows (\<lambda>k e. True) s1 s2" by (rule copy_any_sibling_info_grows_any [OF body B1])
  have len: "length s1 = length hs" "length s2 = length hs"
    using g1 g2 by (simp_all add: grows_length)
  have g3: "grows (\<lambda>k e. True) s2 hs'"
    by (rule pass_part_grows_any [OF after]) (simp add: zs len)
  have A1: "A \<in> set (righthand_siblings (s1 ! B))"
    using grows_siblings [OF g1 B] A by simp
  have d1: "d \<in> set (children (s1 ! B))"
    using grows_children_subset [OF g1 B] d by blast
  from copy_any_sibling_info_effect [OF body B1 A1 d1 ne nc] len obtain a where
    a: "doc_index (length s1) A = Inr a" and
    pr: "has_dependency_with_child_index (s2 ! a) (child_index d) \<or>
         has_dependency_with_label (s2 ! a) (label d)"
    by auto
  have "a < length s2" using doc_index_less [OF a] len by simp
  from present_mono [OF g3 this pr] a len
  show "\<exists>a. doc_index (length hs) A = Inr a \<and>
            (has_dependency_with_child_index (hs' ! a) (child_index d) \<or>
             has_dependency_with_label (hs' ! a) (label d))"
    by auto
next
  have g: "grows (propagated_edge lang hs) hs hs'"
    by (rule pass_grows_propagated [OF pass])
  show "\<forall>k<length hs. \<forall>e\<in>set (children (hs' ! k)). propagated_edge lang hs k e"
    using grows_all_edges [OF g] at_start by blast
next
  have g: "grows (copied_edge_provenance lang hs) hs hs'"
    by (rule pass_grows_provenance [OF pass])
  have "copied_edge_provenance lang hs k e" if "e \<in> set (children (hs ! k))" for k e
    using that by (auto simp: copied_edge_provenance_def list_ex_iff)
  then show "\<forall>k<length hs. \<forall>e\<in>set (children (hs' ! k)). copied_edge_provenance lang hs k e"
    using grows_all_edges [OF g] by blast
qed

theorem C1_sibling_copy_witness:
  "copy_any_sibling_info_pass English big_black_cats_and_dogs = Inr big_black_cats_and_dogs_after \<and>
   2 < length big_black_cats_and_dogs \<and>
   4 \<in> set (righthand_siblings (big_black_cats_and_dogs ! 2)) \<and>
   dep 2 0 ''amod'' False \<in> set (children (big_black_cats_and_dogs ! 2)) \<and>
   label (dep 2 0 ''amod'' False) \<notin> set (map Some (conjunction_deps English)) \<and>
   child_index (dep 2 0 ''amod'' False) \<noteq> 4 \<and>
   doc_index (length big_black_cats_and_dogs) 4 = Inr 4 \<and>
   (has_dependency_with_child_index (big_black_cats_and_dogs_after ! 4)
      (child_index (dep 2 0 ''amod'' False)) \<or>
    has_dependency_with_label (big_black_cats_and_dogs_after ! 4)
      (label (dep 2 0 ''amod'' False))) \<and>
   propagated_edge English big_black_cats_and_dogs 4 (dep 4 0 ''amod'' True) \<and>
   copied_edge_provenance English big_black_cats_and_dogs 4 (dep 4 0 ''amod'' True)"
proof -
  have pass: "copy_any_sibling_info_pass English big_black_cats_and_dogs =
      Inr big_black_cats_and_dogs_after"
    by code_simp
  have B: "2 < length big_black_cats_and_dogs"
    by (simp add: big_black_cats_and_dogs_def)
  have A: "4 \<in> set (righthand_siblings (big_black_cats_and_dogs ! 2))"
    by (simp add: big_black_cats_and_dogs_def)
  have d: "dep 2 0 ''amod'' False \<in> set (children (big_black_cats_and_dogs ! 2))"
    by (simp add: big_black_cats_and_dogs_def)
  have nc: "label (dep 2 0 ''amod'' False) \<notin> set (map Some (conjunction_deps English))"
    by (simp add: dep_def)
  have ne: "child_index (dep 2 0 ''amod'' False) \<noteq> 4"
    by (simp add: dep_def)
  have ix: "doc_index (length big_black_cats_and_dogs) 4 = Inr 4"
    by (simp add: big_black_cats_and_dogs_def doc_index_def)
  have e: "dep 4 0 ''amod'' True \<in> set (children (big_black_cats_and_dogs_after ! 4))"
    by (simp add: big_black_cats_and_dogs_after_def)
  have k: "4 < length big_black_cats_and_dogs"
    by (simp add: big_black_cats_and_dogs_def)
  from C1_sibling_copy [OF pass B A d nc ne] ix e k
  have "(has_dependency_with_child_index (big_black_cats_and_dogs_after ! 4)
           (child_index (dep 2 0 ''amod'' False)) \<or>
         has_dependency_with_label (big_black_cats_and_dogs_after ! 4)
           (label (dep 2 0 ''amod'' False))) \<and>
        propagated_edge English big_black_cats_and_dogs 4 (dep 4 0 ''amod'' True) \<and>
        copied_edge_provenance English big_black_cats_and_dogs 4 (dep 4 0 ''amod'' True)"
    by auto
  with pass B A d nc ne ix show ?thesis by blast
qed

text \<open>
  C1 as stated fails on ``big black cats and dogs''. ``cats'' (token 2) has the edges
  \<open>amod\<close> to ``big'' (token 0) and \<open>amod\<close> to ``black'' (token 1), and ``dogs''
  (token 4) is its righthand sibling with no edge at all before the pass. The first edge is
  copied to ``dogs''; the copy then counts as an edge with the same label, so the second is
  not copied, and ``dogs'' ends the pass without an edge to ``black''.
\<close>

theorem C1_counterexample:
  "copy_any_sibling_info_pass English big_black_cats_and_dogs = Inr big_black_cats_and_dogs_after \<and>
   4 \<in> set (righthand_siblings (big_black_cats_and_dogs ! 2)) \<and>
   doc_index (length big_black_cats_and_dogs) 4 = Inr 4 \<and>
   dep 2 1 ''amod'' False \<in> set (children (big_black_cats_and_dogs ! 2)) \<and>
   label (dep 2 1 ''amod'' False) \<notin> set (map Some (conjunction_deps English)) \<and>
   child_index (dep 2 1 ''amod'' False) \<noteq> 4 \<and>
   \<not> has_dependency_with_label (big_black_cats_and_dogs ! 4) (label (dep 2 1 ''amod'' False)) \<and>
   \<not> has_dependency_with_child_index (big_black_cats_and_dogs ! 4)
       (child_index (dep 2 1 ''amod'' False)) \<and>
   \<not> has_dependency_with_child_index (big_black_cats_and_dogs_after ! 4)
       (child_index (dep 2 1 ''amod'' False))"
proof -
  have pass: "copy_any_sibling_info_pass English big_black_cats_and_dogs =
      Inr big_black_cats_and_dogs_after"
    by code_simp
  have rest: "4 \<in> set (righthand_siblings (big_black_cats_and_dogs ! 2)) \<and>
   doc_index (length big_black_cats_and_dogs) 4 = Inr 4 \<and>
   dep 2 1 ''amod'' False \<in> set (children (big_black_cats_and_dogs ! 2)) \<and>
   label (dep 2 1 ''amod'' False) \<notin> set (map Some (conjunction_deps English)) \<and>
   child_index (dep 2 1 ''amod'' False) \<noteq> 4 \<and>
   \<not> has_dependency_with_label (big_black_cats_and_dogs ! 4) (label (dep 2 1 ''amod'' False)) \<and>
   \<not> has_dependency_with_child_index (big_black_cats_and_dogs ! 4)
       (child_index (dep 2 1 ''amod'' False)) \<and>
   \<not> has_dependency_with_child_index (big_black_cats_and_dogs_after ! 4)
       (child_index (dep 2 1 ''amod'' False))"
    by (simp add: big_black_cats_and_dogs_def big_black_cats_and_dogs_after_def dep_def
        doc_index_def new_dictionary_def has_dependency_with_label_def
        has_dependency_with_child_index_def)
  from pass rest show ?thesis by blast
qed

section \<open>Properties of the negation pass\<close>

lemma cyclic_no_negation_child:
  "\<not> has_negation_child lang cyclic_tokens cyclic_dictionaries i"
  by (cases lang)
    (simp_all add: cyclic_tokens_def cyclic_dictionaries_def syntactic_children_def
      plain_token_def new_dictionary_def startswith_def upt_conv_Cons)

lemma cyclic_never_returns:
  "i < 2 \<Longrightarrow> set_negation lang cyclic_tokens limit i cyclic_dictionaries = Inl RecursionError"
proof (induction limit arbitrary: i)
  case 0
  show ?case by simp
next
  case (Suc limit)
  have unset: "is_negated (cyclic_dictionaries ! i) = None"
    using Suc.prems by (cases i) (simp_all add: cyclic_dictionaries_def new_dictionary_def)
  have notroot: "tok_dep (cyclic_tokens ! i) \<noteq> ''ROOT''"
    using Suc.prems by (cases i) (simp_all add: cyclic_tokens_def plain_token_def)
  have head: "tok_head (cyclic_tokens ! i) < 2"
    using Suc.prems by (cases i) (simp_all add: cyclic_tokens_def plain_token_def)
  show ?case
    using unset notroot cyclic_no_negation_child Suc.IH [OF head] by simp
qed

lemma set_is_negated_length [simp]: "length (set_is_negated i v hs) = length hs"
  by (simp add: set_is_negated_def)

lemma set_is_negated_nth:
  "k < length hs \<Longrightarrow>
   is_negated (set_is_negated i v hs ! k) = (if k = i then v else is_negated (hs ! k))"
  by (simp add: set_is_negated_def nth_list_update)

text \<open>
  One call: with more frames than the distance of the token from a ROOT token, the call
  returns, the token is resolved, and no token that was resolved loses its value.
\<close>

lemma set_negation_resolves:
  assumes "length hs = length toks"
    and "\<forall>t\<in>set toks. tok_head t < length toks"
    and "i < length toks"
    and "reaches_root toks d i"
    and "d < limit"
  shows "\<exists>hs'. set_negation lang toks limit i hs = Inr hs' \<and> length hs' = length hs \<and>
           is_negated (hs' ! i) \<noteq> None \<and>
           (\<forall>k<length hs. is_negated (hs ! k) \<noteq> None \<longrightarrow> is_negated (hs' ! k) \<noteq> None)"
  using assms
proof (induction d arbitrary: i hs limit)
  case 0
  then obtain f where f: "limit = Suc f" by (cases limit) simp_all
  have root: "tok_dep (toks ! i) = ''ROOT''" using "0.prems"(4) by simp
  show ?case
    using "0.prems"(1,3) root unfolding f
    by (auto simp: set_is_negated_nth)
next
  case (Suc d)
  then obtain f where f: "limit = Suc f" by (cases limit) simp_all
  have i: "i < length hs" using Suc.prems(1,3) by simp
  show ?case
  proof (cases "is_negated (hs ! i) \<noteq> None \<or> has_negation_child lang toks hs i \<or>
      tok_dep (toks ! i) = ''ROOT''")
    case True
    then show ?thesis
      using i unfolding f by (auto simp: set_is_negated_nth)
  next
    case False
    let ?h = "tok_head (toks ! i)"
    have h: "?h < length toks" using Suc.prems(2,3) by simp
    have r: "reaches_root toks d ?h" using Suc.prems(4) False by simp
    have "d < f" using Suc.prems(5) f by simp
    from Suc.IH [OF Suc.prems(1,2) h r this] obtain hs1 where
      call: "set_negation lang toks f ?h hs = Inr hs1" and
      len: "length hs1 = length hs" and
      res: "is_negated (hs1 ! ?h) \<noteq> None" and
      keep: "\<forall>k<length hs. is_negated (hs ! k) \<noteq> None \<longrightarrow> is_negated (hs1 ! k) \<noteq> None"
      by blast
    have "set_negation lang toks limit i hs =
        Inr (set_is_negated i (is_negated (hs1 ! ?h)) hs1)"
      using False call unfolding f by simp
    moreover have "is_negated (set_is_negated i (is_negated (hs1 ! ?h)) hs1 ! i) \<noteq> None"
      using i len res by (simp add: set_is_negated_nth)
    moreover have "\<forall>k<length hs. is_negated (hs ! k) \<noteq> None \<longrightarrow>
        is_negated (set_is_negated i (is_negated (hs1 ! ?h)) hs1 ! k) \<noteq> None"
      using keep len res by (simp add: set_is_negated_nth)
    ultimately show ?thesis using len by simp
  qed
qed

lemma negation_loop_resolves:
  assumes "length hs = length toks"
    and "\<forall>t\<in>set toks. tok_head t < length toks"
    and "\<forall>i\<in>set xs. i < length toks \<and> reaches_root toks d i"
    and "d < limit"
  shows "\<exists>hs'. for_each xs (set_negation lang toks limit) hs = Inr hs' \<and>
           length hs' = length hs \<and>
           (\<forall>i\<in>set xs. is_negated (hs' ! i) \<noteq> None) \<and>
           (\<forall>k<length hs. is_negated (hs ! k) \<noteq> None \<longrightarrow> is_negated (hs' ! k) \<noteq> None)"
  using assms
proof (induction xs arbitrary: hs)
  case Nil
  show ?case by simp
next
  case (Cons x xs)
  have x: "x < length toks" "reaches_root toks d x" using Cons.prems(3) by simp_all
  from set_negation_resolves [OF Cons.prems(1,2) x Cons.prems(4), of lang] obtain hs1 where
    call: "set_negation lang toks limit x hs = Inr hs1" and
    len: "length hs1 = length hs" and
    res: "is_negated (hs1 ! x) \<noteq> None" and
    keep: "\<forall>k<length hs. is_negated (hs ! k) \<noteq> None \<longrightarrow> is_negated (hs1 ! k) \<noteq> None"
    by blast
  have len1: "length hs1 = length toks" using len Cons.prems(1) by simp
  have rest: "\<forall>i\<in>set xs. i < length toks \<and> reaches_root toks d i" using Cons.prems(3) by simp
  from Cons.IH [OF len1 Cons.prems(2) rest Cons.prems(4)] obtain hs' where
    loop: "for_each xs (set_negation lang toks limit) hs1 = Inr hs'" and
    len': "length hs' = length hs1" and
    res': "\<forall>i\<in>set xs. is_negated (hs' ! i) \<noteq> None" and
    keep': "\<forall>k<length hs1. is_negated (hs1 ! k) \<noteq> None \<longrightarrow> is_negated (hs' ! k) \<noteq> None"
    by blast
  have "for_each (x # xs) (set_negation lang toks limit) hs = Inr hs'"
    using call loop by simp
  moreover have "is_negated (hs' ! x) \<noteq> None"
    using keep' res x(1) len1 by simp
  moreover have "\<forall>k<length hs. is_negated (hs ! k) \<noteq> None \<longrightarrow> is_negated (hs' ! k) \<noteq> None"
    using keep keep' len by simp
  ultimately show ?case using len len' res' by simp
qed

text \<open>
  C4, amended. If the head chain of every token reaches a token labelled ROOT in at most
  \<open>d\<close> steps, as in a tree-shaped parse, and the interpreter allows more than \<open>d\<close>
  nested calls, then the negation pass returns and every token's \<open>is_negated\<close> is true or
  false at its end. The lookup is a plain recursion on the head, guarded only by the test
  that the token is still unresolved.
\<close>

theorem C4_negation_resolved:
  assumes "length hs = length toks"
    and "\<forall>t\<in>set toks. tok_head t < length toks"
    and "\<forall>i<length toks. reaches_root toks d i"
    and "d < limit"
  shows "\<exists>hs'. negation_pass lang toks limit hs = Inr hs' \<and>
           (\<forall>i<length toks. is_negated (hs' ! i) \<noteq> None)"
proof -
  have "\<forall>i\<in>set [0..<length toks]. i < length toks \<and> reaches_root toks d i"
    using assms(3) by simp
  from negation_loop_resolves [OF assms(1,2) this assms(4), of lang]
  show ?thesis by (auto simp: negation_pass_def)
qed

theorem C4_negation_resolved_witness:
  "negation_pass English he_did_not_go 2 he_did_not_go_dictionaries =
     Inr (map (\<lambda>h. h\<lparr>is_negated := Some True\<rparr>) he_did_not_go_dictionaries) \<and>
   is_negated (map (\<lambda>h. h\<lparr>is_negated := Some True\<rparr>) he_did_not_go_dictionaries ! 3) \<noteq> None"
proof -
  have len: "length he_did_not_go_dictionaries = length he_did_not_go"
    by (simp add: he_did_not_go_def he_did_not_go_dictionaries_def)
  have heads: "\<forall>t\<in>set he_did_not_go. tok_head t < length he_did_not_go"
    by (simp add: he_did_not_go_def plain_token_def)
  have roots: "\<forall>i<length he_did_not_go. reaches_root he_did_not_go 1 i"
    by (simp add: he_did_not_go_def plain_token_def less_Suc_eq eval_nat_numeral)
  have lim: "(1::nat) < 2" by simp
  have run: "negation_pass English he_did_not_go 2 he_did_not_go_dictionaries =
      Inr (map (\<lambda>h. h\<lparr>is_negated := Some True\<rparr>) he_did_not_go_dictionaries)"
    by code_simp
  have three: "3 < length he_did_not_go"
    by (simp add: he_did_not_go_def)
  from C4_negation_resolved [OF len heads roots lim, of English] run three
  have "is_negated (map (\<lambda>h. h\<lparr>is_negated := Some True\<rparr>) he_did_not_go_dictionaries ! 3) \<noteq> None"
    by auto
  with run show ?thesis by blast
qed

text \<open>
  C4 as stated fails: on two tokens that are each other's head, with no negation word and
  no ROOT label, the recursion of \<open>_set_negation\<close> uses up any number of nested calls,
  so the pass ends in RecursionError with Python's default limit of 1000 as with any other,
  and no token is resolved.
\<close>

theorem C4_counterexample:
  "negation_pass English cyclic_tokens 1000 cyclic_dictionaries = Inl RecursionError \<and>
   negation_pass German cyclic_tokens 1000 cyclic_dictionaries = Inl RecursionError"
  using cyclic_never_returns [of 0 English 1000] cyclic_never_returns [of 0 German 1000]
  by (simp add: negation_pass_def cyclic_tokens_def upt_conv_Cons)

section \<open>Properties of the normalization of predicative adjectives\<close>

lemma bind_err_return [simp]: "bind_err m Inr = m"
  by (cases m) simp_all

lemma for_each_skip:
  "(\<And>x. x \<in> set xs \<Longrightarrow> body x s = Inr s) \<Longrightarrow> for_each xs body s = Inr s"
  by (induction xs) simp_all



lemma normalize_skip:
  assumes "tok_pos (toks ! k) = adjectival_predicate_head_pos lang \<Longrightarrow>
      \<not> has_dependency_with_label (hs ! k) (Some (adjectival_predicate_predicate_dep lang))"
  shows "normalize_predicative_adjectives lang coref toks k hs = Inr hs"
proof (cases "tok_pos (toks ! k) = adjectival_predicate_head_pos lang")
  case False
  then show ?thesis by (simp add: normalize_predicative_adjectives_def)
next
  case True
  with assms have none: "\<forall>d\<in>set (children (hs ! k)).
      label d \<noteq> Some (adjectival_predicate_predicate_dep lang)"
    by (auto simp: has_dependency_with_label_def list_ex_iff)
  have "for_each (children (hs ! k))
      (\<lambda>dependency st.
         bind_err (is_predicative_adjective lang toks (length (fst st)) dependency)
           (\<lambda>selected.
              if selected
              then for_each (children (fst st ! k))
                     (attach_adjective_to_subject lang coref toks (child_index dependency)) st
              else Inr st))
      (hs, None) = Inr (hs, None)"
  proof (rule for_each_skip)
    fix d assume "d \<in> set (children (hs ! k))"
    with none have "label d \<noteq> Some (adjectival_predicate_predicate_dep lang)" by blast
    then show "bind_err (is_predicative_adjective lang toks (length (fst (hs, None))) d)
        (\<lambda>selected.
           if selected
           then for_each (children (fst (hs, None) ! k))
                  (attach_adjective_to_subject lang coref toks (child_index d)) (hs, None)
           else Inr (hs, None)) = Inr (hs, None)"
      by (simp add: is_predicative_adjective_def)
  qed
  then show ?thesis using True by (simp add: normalize_predicative_adjectives_def)
qed























section \<open>Properties of the preposition-phrase pass\<close>

lemma only_adds_refl: "only_adds Q hs hs"
proof -
  have "\<And>k. hs ! k = (hs ! k)\<lparr>children := children (hs ! k) @ []\<rparr> \<and> list_all Q []"
    by simp
  then show ?thesis unfolding only_adds_def by blast
qed

lemma only_adds_trans:
  assumes ab: "only_adds Q a b" and bc: "only_adds Q b c"
  shows "only_adds Q a c"
  unfolding only_adds_def
proof (intro conjI allI impI)
  show "length c = length a" using ab bc by (simp add: only_adds_def)
next
  fix k assume k: "k < length a"
  from ab k obtain x where x: "b ! k = (a ! k)\<lparr>children := children (a ! k) @ x\<rparr>" "list_all Q x"
    unfolding only_adds_def by blast
  from bc ab k obtain y where y: "c ! k = (b ! k)\<lparr>children := children (b ! k) @ y\<rparr>" "list_all Q y"
    unfolding only_adds_def by auto
  have "c ! k = (a ! k)\<lparr>children := children (a ! k) @ (x @ y)\<rparr> \<and> list_all Q (x @ y)"
    using x y by simp
  then show "\<exists>added. c ! k = (a ! k)\<lparr>children := children (a ! k) @ added\<rparr> \<and> list_all Q added"
    by blast
qed

lemma only_adds_append_child:
  assumes "Q e"
  shows "only_adds Q hs (append_child j e hs)"
  unfolding only_adds_def append_child_def
proof (intro conjI allI impI)
  show "length (hs[j := (hs ! j)\<lparr>children := children (hs ! j) @ [e]\<rparr>]) = length hs"
    by simp
next
  fix k assume k: "k < length hs"
  show "\<exists>added. hs[j := (hs ! j)\<lparr>children := children (hs ! j) @ [e]\<rparr>] ! k =
      (hs ! k)\<lparr>children := children (hs ! k) @ added\<rparr> \<and> list_all Q added"
  proof (cases "k = j")
    case True
    then have "hs[j := (hs ! j)\<lparr>children := children (hs ! j) @ [e]\<rparr>] ! k =
        (hs ! k)\<lparr>children := children (hs ! k) @ [e]\<rparr> \<and> list_all Q [e]"
      using k assms by simp
    then show ?thesis by blast
  next
    case False
    then have "hs[j := (hs ! j)\<lparr>children := children (hs ! j) @ [e]\<rparr>] ! k =
        (hs ! k)\<lparr>children := children (hs ! k) @ []\<rparr> \<and> list_all Q []"
      by simp
    then show ?thesis by blast
  qed
qed

lemma add_dependencies_only_adds:
  assumes "add_dependencies_pointing_to_preposition_and_siblings i parent new_label hs = Inr hs'"
    and "\<And>p c. Q \<lparr>parent_index = p, child_index = c, label = Some new_label,
           is_uncertain = True\<rparr>"
  shows "only_adds Q hs hs'"
proof (rule for_each_invariant [OF assms(1) [unfolded
        add_dependencies_pointing_to_preposition_and_siblings_def], where P = "only_adds Q hs"])
  show "only_adds Q hs hs" by (rule only_adds_refl)
next
  fix raw t t'
  assume t: "only_adds Q hs t"
    and "bind_err (doc_index (length t) raw)
          (\<lambda>working_preposition.
             if parent \<noteq> working_preposition
             then bind_err
                    (SemanticDependency_init (int parent) (int working_preposition)
                       (Some new_label) True)
                    (\<lambda>d. Inr (append_child parent d t))
             else Inr t) = Inr t'"
  then have "only_adds Q t t'"
    using assms(2)
    by (auto simp: bind_err_eq_Inr SemanticDependency_init_def only_adds_refl
        split: if_splits intro!: only_adds_append_child)
  with t show "only_adds Q hs t'" by (rule only_adds_trans)
qed

text \<open>What the pass may add: an uncertain edge with one of the two ``possible'' labels.\<close>

lemma create_only_adds:
  assumes "create_additional_preposition_phrase_semantic_dependencies lang coref toks i hs = Inr hs'"
  shows "only_adds
           (\<lambda>e. is_uncertain e \<and>
                (label e = Some (holmes_noun_to_preposition_dep lang) \<or>
                 label e = Some (holmes_verb_to_preposition_dep lang)))
           hs hs'"
    (is "only_adds ?Q hs hs'")
proof -
  let ?gv = "filter
      (\<lambda>working_token.
         working_token < i \<and> tok_pos (toks ! working_token) = ''VERB'' \<and>
         has_dependency_with_child_index (hs ! working_token) (int (i - 1)))
      [tok_sent_start (toks ! i)..<tok_sent_end (toks ! i)]"
  let ?verb_body = "\<lambda>governing_verb s.
      if has_dependency_with_child_index_and_label (s ! (i - 1))
           (int i) (Some (spacy_noun_to_preposition_dep lang)) \<and>
         \<not> has_dependency_with_child_index_and_label (s ! governing_verb)
             (int i) (Some (spacy_verb_to_preposition_dep lang))
      then add_dependencies_pointing_to_preposition_and_siblings i
             governing_verb (holmes_verb_to_preposition_dep lang) s
      else Inr s"
  have verbs: "\<And>xs t t'. for_each xs ?verb_body t = Inr t' \<Longrightarrow> only_adds ?Q t t'"
  proof -
    fix xs t t'
    assume loop: "for_each xs ?verb_body t = Inr t'"
    show "only_adds ?Q t t'"
    proof (rule for_each_invariant [OF loop, where P = "only_adds ?Q t"])
      show "only_adds ?Q t t" by (rule only_adds_refl)
    next
      fix x u u'
      assume u: "only_adds ?Q t u" and "?verb_body x u = Inr u'"
      then have "only_adds ?Q u u'"
        by (auto simp: only_adds_refl split: if_splits
            intro!: add_dependencies_only_adds [where Q = ?Q])
      with u show "only_adds ?Q t u'" by (rule only_adds_trans)
    qed
  qed
  show ?thesis
  proof (cases "hs' = hs")
    case True
    then show ?thesis by (simp add: only_adds_refl)
  next
    case False
    with assms obtain hs1 where
      l1: "for_each ?gv ?verb_body hs = Inr hs1" and
      l2: "hs' = hs1 \<or>
           add_dependencies_pointing_to_preposition_and_siblings i (i - 1)
             (holmes_noun_to_preposition_dep lang) hs1 = Inr hs'"
      unfolding create_additional_preposition_phrase_semantic_dependencies_def Let_def
      by (auto simp: bind_err_eq_Inr split: if_splits)
    have a: "only_adds ?Q hs hs1" by (rule verbs [OF l1])
    from l2 have "only_adds ?Q hs1 hs'"
    proof
      assume "hs' = hs1"
      then show ?thesis by (simp add: only_adds_refl)
    next
      assume "add_dependencies_pointing_to_preposition_and_siblings i (i - 1)
             (holmes_noun_to_preposition_dep lang) hs1 = Inr hs'"
      then show ?thesis by (rule add_dependencies_only_adds) simp
    qed
    with a show ?thesis by (rule only_adds_trans)
  qed
qed

text \<open>
  C8. The pass that adds dependencies for preposition phrases only adds: when it returns,
  every token's dictionary is what it was, with its former children unchanged and in place
  and new edges after them, and every new edge is marked uncertain and labelled with the
  language's label for a possible dependency from a noun or from a verb to a preposition
  (\<open>prepposs\<close> in English, \<open>mnrposs\<close> or \<open>moposs\<close> in German).
\<close>

theorem C8_preposition_pass_additive:
  assumes "create_additional_preposition_phrase_semantic_dependencies_pass lang coref toks hs =
      Inr hs'"
  shows "length hs' = length hs \<and>
         (\<forall>k<length hs. \<exists>added.
            hs' ! k = (hs ! k)\<lparr>children := children (hs ! k) @ added\<rparr> \<and>
            (\<forall>e\<in>set added. is_uncertain e \<and>
               (label e = Some (holmes_noun_to_preposition_dep lang) \<or>
                label e = Some (holmes_verb_to_preposition_dep lang))))"
proof -
  let ?Q = "\<lambda>e. is_uncertain e \<and>
                (label e = Some (holmes_noun_to_preposition_dep lang) \<or>
                 label e = Some (holmes_verb_to_preposition_dep lang))"
  have "only_adds ?Q hs hs'"
  proof (rule for_each_invariant [OF assms [unfolded
          create_additional_preposition_phrase_semantic_dependencies_pass_def],
          where P = "only_adds ?Q hs"])
    show "only_adds ?Q hs hs" by (rule only_adds_refl)
  next
    fix x t t'
    assume t: "only_adds ?Q hs t"
      and "create_additional_preposition_phrase_semantic_dependencies lang coref toks x t = Inr t'"
    then have "only_adds ?Q t t'" by (intro create_only_adds)
    with t show "only_adds ?Q hs t'" by (rule only_adds_trans)
  qed
  then show ?thesis by (simp add: only_adds_def list_all_iff)
qed

theorem C8_preposition_pass_additive_witness:
  "create_additional_preposition_phrase_semantic_dependencies_pass English False
      insurance_for_a_period insurance_for_a_period_dictionaries =
     Inr (insurance_for_a_period_dictionaries
           [1 := (insurance_for_a_period_dictionaries ! 1)
              \<lparr>children := children (insurance_for_a_period_dictionaries ! 1) @
                 [dep 1 3 ''prepposs'' True]\<rparr>]) \<and>
   (\<exists>added.
      insurance_for_a_period_dictionaries
           [1 := (insurance_for_a_period_dictionaries ! 1)
              \<lparr>children := children (insurance_for_a_period_dictionaries ! 1) @
                 [dep 1 3 ''prepposs'' True]\<rparr>] ! 1 =
      (insurance_for_a_period_dictionaries ! 1)
        \<lparr>children := children (insurance_for_a_period_dictionaries ! 1) @ added\<rparr> \<and>
      (\<forall>e\<in>set added. is_uncertain e \<and>
           (label e = Some (holmes_noun_to_preposition_dep English) \<or>
            label e = Some (holmes_verb_to_preposition_dep English))))"
proof -
  have run: "create_additional_preposition_phrase_semantic_dependencies_pass English False
      insurance_for_a_period insurance_for_a_period_dictionaries =
     Inr (insurance_for_a_period_dictionaries
           [1 := (insurance_for_a_period_dictionaries ! 1)
              \<lparr>children := children (insurance_for_a_period_dictionaries ! 1) @
                 [dep 1 3 ''prepposs'' True]\<rparr>])"
    by code_simp
  have k: "1 < length insurance_for_a_period_dictionaries"
    by (simp add: insurance_for_a_period_dictionaries_def)
  from C8_preposition_pass_additive [OF run] k
  have "\<exists>added.
      insurance_for_a_period_dictionaries
           [1 := (insurance_for_a_period_dictionaries ! 1)
              \<lparr>children := children (insurance_for_a_period_dictionaries ! 1) @
                 [dep 1 3 ''prepposs'' True]\<rparr>] ! 1 =
      (insurance_for_a_period_dictionaries ! 1)
        \<lparr>children := children (insurance_for_a_period_dictionaries ! 1) @ added\<rparr> \<and>
      (\<forall>e\<in>set added. is_uncertain e \<and>
           (label e = Some (holmes_noun_to_preposition_dep English) \<or>
            label e = Some (holmes_verb_to_preposition_dep English)))"
    by blast
  with run show ?thesis by blast
qed

end
